theory Spec2Isabelle
  imports Complex_Main "HOL-Library.Word"
begin

section \<open>Arrays, errors and the numpy operations used by the pipeline\<close>

text \<open>
  The module \<^verbatim>\<open>rhizoscan/root/pipeline/arabidopsis.py\<close> is Python 2 code on numpy arrays
  (its commented driver uses the \<^verbatim>\<open>print\<close> statement and \<^verbatim>\<open>basestring\<close>, it negates a
  boolean mask with unary minus, and it imports no \<^verbatim>\<open>division\<close> from \<^verbatim>\<open>__future__\<close>).

  A 2-D array is the list of its rows. The shape of an array is the list of its row
  lengths; numpy's arrays are rectangular, and every operation below keeps rectangular
  arrays rectangular. Pixel intensities are exact reals: rounding of floating point
  numbers is not represented. The plate mask is an array of values of any ordered type,
  or of floats with NaN among them, since its comparison with its maximum depends on
  that. Masks are arrays of booleans; label maps are arrays of integers.

  An exception is a value of type \<open>error\<close>, and a computation that may raise has a result
  of type \<open>error + 'a\<close>. \<open>ShapeError\<close> is the class the specification names for an empty
  plate mask; no statement of the module raises it. \<open>OtherError\<close> stands for any other
  class that an external function may raise.
\<close>

type_synonym 'a ndarray = "'a list list"

datatype error = ValueError | IndexError | ZeroDivisionError | ShapeError | OtherError

definition bindE :: "error + 'a \<Rightarrow> ('a \<Rightarrow> error + 'b) \<Rightarrow> error + 'b" where
  "bindE m f = (case m of Inl e \<Rightarrow> Inl e | Inr x \<Rightarrow> f x)"

text \<open>\<^verbatim>\<open>a.shape\<close>, and the number of elements \<^verbatim>\<open>a.size\<close>.\<close>

definition shape :: "'a ndarray \<Rightarrow> nat list" where
  "shape a = map length a"

definition shape2 :: "'a ndarray \<Rightarrow> nat \<times> nat" where
  "shape2 a = (length a, case a of [] \<Rightarrow> 0 | r # _ \<Rightarrow> length r)"

definition asize :: "'a ndarray \<Rightarrow> nat" where
  "asize a = length (concat a)"

text \<open>
  An element of a plate mask is a value (an integer, a boolean or a float) or, in an
  array of floats, NaN. An array of integers or of booleans holds no NaN.
\<close>

datatype 'a elem = Val 'a | NaN

definition nan_free :: "'a elem ndarray \<Rightarrow> bool" where
  "nan_free a \<longleftrightarrow> NaN \<notin> set (concat a)"

text \<open>
  \<^verbatim>\<open>a.max()\<close>: the reduction of the elements by \<^verbatim>\<open>numpy.maximum\<close>, which gives the greater
  of two values and NaN when one of the two is NaN; ValueError on an array without
  elements.
\<close>

fun elem_max :: "('a::linorder) elem \<Rightarrow> 'a elem \<Rightarrow> 'a elem" where
  "elem_max (Val x) (Val y) = Val (max x y)"
| "elem_max _ _ = NaN"

definition amax :: "('a::linorder) elem ndarray \<Rightarrow> error + 'a elem" where
  "amax a =
     (case concat a of [] \<Rightarrow> Inl ValueError | x # xs \<Rightarrow> Inr (fold elem_max xs x))"

text \<open>
  \<^verbatim>\<open>a == v\<close> for a scalar \<open>v\<close>: NaN is equal to nothing, not to NaN either. Then
  \<^verbatim>\<open>-m\<close> on a boolean mask (logical negation in the numpy this code was written for),
  \<^verbatim>\<open>m.astype('f')\<close> and \<^verbatim>\<open>a > 0\<close>.
\<close>

fun elem_eq :: "'a elem \<Rightarrow> 'a elem \<Rightarrow> bool" where
  "elem_eq (Val x) (Val y) = (x = y)"
| "elem_eq _ _ = False"

definition eq_scalar :: "'a elem ndarray \<Rightarrow> 'a elem \<Rightarrow> bool ndarray" where
  "eq_scalar a v = map (map (\<lambda>x. elem_eq x v)) a"

definition negate_mask :: "bool ndarray \<Rightarrow> bool ndarray" where
  "negate_mask m = map (map Not) m"

definition astype_f :: "bool ndarray \<Rightarrow> real ndarray" where
  "astype_f m = map (map (\<lambda>b. if b then 1 else 0)) m"

definition greater_zero :: "int ndarray \<Rightarrow> bool ndarray" where
  "greater_zero a = map (map (\<lambda>v. 0 < v)) a"

text \<open>
  Element-wise operations on two arrays. Operands of different shapes raise
  (broadcasting of axes of length one does not occur between the arrays of this module
  when \<open>image\<close> and \<open>pmask\<close> have one shape, as they have in the pipeline, where the plate
  mask is computed from the image).
\<close>

definition zip2d :: "('a \<Rightarrow> 'b \<Rightarrow> 'c) \<Rightarrow> 'a ndarray \<Rightarrow> 'b ndarray \<Rightarrow> error + 'c ndarray" where
  "zip2d f a b =
     (if shape a = shape b then Inr (map2 (\<lambda>r s. map2 f r s) a b) else Inl ValueError)"

text \<open>\<^verbatim>\<open>img * mask\<close>: a boolean counts as 1 or 0.\<close>

definition multiply_mask :: "real ndarray \<Rightarrow> bool ndarray \<Rightarrow> error + real ndarray" where
  "multiply_mask a m = zip2d (\<lambda>v b. if b then v else 0) a m"

text \<open>\<^verbatim>\<open>a /= b\<close> on float arrays, and \<^verbatim>\<open>numpy.maximum(a, c)\<close> for a scalar \<open>c\<close>.\<close>

definition divide_inplace :: "real ndarray \<Rightarrow> real ndarray \<Rightarrow> error + real ndarray" where
  "divide_inplace a b = zip2d (\<lambda>x y. x / y) a b"

definition maximum :: "real ndarray \<Rightarrow> real \<Rightarrow> real ndarray" where
  "maximum a c = map (map (\<lambda>v. max v c)) a"

text \<open>
  A bounding box is a pair of slices \<open>(start, stop)\<close>, one for the rows and one for the
  columns. \<^verbatim>\<open>a[bbox]\<close> selects the rows and columns in the slices; a slice that runs
  beyond the array is cut at its end.
\<close>

type_synonym slice = "nat \<times> nat"
type_synonym bbox = "slice \<times> slice"

definition getitem_slice :: "'a list \<Rightarrow> slice \<Rightarrow> 'a list" where
  "getitem_slice xs s = take (snd s - fst s) (drop (fst s) xs)"

definition getitem_box :: "'a ndarray \<Rightarrow> bbox \<Rightarrow> 'a ndarray" where
  "getitem_box a b = map (\<lambda>r. getitem_slice r (snd b)) (getitem_slice a (fst b))"

text \<open>\<^verbatim>\<open>xs[0]\<close> on a Python list.\<close>

definition getitem0 :: "'a list \<Rightarrow> error + 'a" where
  "getitem0 xs = (case xs of [] \<Rightarrow> Inl IndexError | x # _ \<Rightarrow> Inr x)"

text \<open>
  \<^verbatim>\<open>a[m] = 0\<close> for a boolean array \<open>a\<close> and a mask \<open>m\<close>: the elements where the mask is
  true become false. A mask of another shape raises IndexError.
\<close>

definition setitem_mask_zero :: "bool ndarray \<Rightarrow> bool ndarray \<Rightarrow> error + bool ndarray" where
  "setitem_mask_zero a m =
     (if shape a = shape m then Inr (map2 (\<lambda>r s. map2 (\<lambda>v b. if b then False else v) r s) a m)
      else Inl IndexError)"

text \<open>
  \<^verbatim>\<open>img[m] = vals[m]\<close> where \<open>img\<close> is \<^verbatim>\<open>buf[bbox]\<close>. Indexing an array with a tuple of
  slices gives a view: \<open>img\<close> has no pixels of its own, its element \<open>(i, j)\<close> is the
  element \<open>(fst (fst bbox) + i, fst (snd bbox) + j)\<close> of \<open>buf\<close>, and the assignment writes
  there. The function returns the buffer after the assignment. Both indexings with the
  mask need an array of the mask's shape.
\<close>

definition in_slice :: "slice \<Rightarrow> nat \<Rightarrow> bool" where
  "in_slice s i = (fst s \<le> i \<and> i < snd s)"

definition setitem_mask_view ::
  "'a ndarray \<Rightarrow> bbox \<Rightarrow> bool ndarray \<Rightarrow> 'a ndarray \<Rightarrow> error + 'a ndarray" where
  "setitem_mask_view buf b m vals =
     (if shape (getitem_box buf b) = shape m \<and> shape vals = shape m then
        Inr (map (\<lambda>i. map (\<lambda>j.
               if in_slice (fst b) i \<and> in_slice (snd b) j
                  \<and> m ! (i - fst (fst b)) ! (j - fst (snd b))
               then vals ! (i - fst (fst b)) ! (j - fst (snd b))
               else buf ! i ! j) [0..<length (buf ! i)]) [0..<length buf])
      else Inl IndexError)"

subsection \<open>scipy.ndimage.find_objects on a boolean array\<close>

text \<open>
  \<^verbatim>\<open>find_objects(input)\<close> returns one entry for each label from 1 to \<^verbatim>\<open>input.max()\<close>.
  A boolean array has the one label 1, carried by its true pixels. The routine scans the
  pixels in row-major order and widens the region of the label at each pixel that
  carries it. With no true pixel the greatest label is 0 and the list is empty.
\<close>

definition true_pixels :: "bool ndarray \<Rightarrow> (nat \<times> nat) list" where
  "true_pixels m =
     concat (map (\<lambda>i. map (\<lambda>j. (i, j)) (filter (\<lambda>j. m ! i ! j) [0..<length (m ! i)]))
                 [0..<length m])"

fun grow :: "bbox option \<Rightarrow> nat \<times> nat \<Rightarrow> bbox option" where
  "grow None (i, j) = Some ((i, Suc i), (j, Suc j))"
| "grow (Some ((r0, r1), (c0, c1))) (i, j) =
     Some ((min r0 i, max r1 (Suc i)), (min c0 j, max c1 (Suc j)))"

definition nd_find_objects :: "bool ndarray \<Rightarrow> error + bbox list" where
  "nd_find_objects m =
     (if asize m = 0 then Inl ValueError
      else case foldl grow None (true_pixels m) of None \<Rightarrow> Inr [] | Some b \<Rightarrow> Inr [b])"

section \<open>External functions\<close>

text \<open>
  \<open>segment_image\<close> and \<open>detect_leaves\<close> call functions of scipy and of other modules of
  the package, none of which is part of the file. They are parameters of the model: a
  record with one field for each function. Each takes arrays and returns a new array or
  raises; none writes into an argument.

  \<^item> \<^verbatim>\<open>_nd.gaussian_filter(input, sigma=s)\<close>
  \<^item> \<^verbatim>\<open>_remove_background(img, distance=d, smooth=s)\<close>
  \<^item> \<^verbatim>\<open>_nd.binary_erosion(mask, iterations=n)\<close>
  \<^item> \<^verbatim>\<open>_segment_root(img)\<close>
  \<^item> \<^verbatim>\<open>_nd.label(mask)\<close>, which returns the label map and the number of labels
  \<^item> \<^verbatim>\<open>_clean_label(cluster, min_dim=d)\<close>
  \<^item> \<^verbatim>\<open>_detect_leaves(mask, image, leaf_number, root_radius, leaf_height, sort)\<close>
\<close>

record collab =
  nd_gaussian_filter :: "real ndarray \<Rightarrow> real \<Rightarrow> error + real ndarray"
  remove_background :: "real ndarray \<Rightarrow> int \<Rightarrow> real \<Rightarrow> error + real ndarray"
  nd_binary_erosion :: "bool ndarray \<Rightarrow> int \<Rightarrow> error + bool ndarray"
  segment_root :: "real ndarray \<Rightarrow> error + bool ndarray"
  nd_label :: "bool ndarray \<Rightarrow> error + (int ndarray \<times> int)"
  clean_label :: "int ndarray \<Rightarrow> int \<Rightarrow> error + int ndarray"
  seed_detect_leaves ::
    "bool ndarray \<Rightarrow> real ndarray \<Rightarrow> int \<Rightarrow> real \<Rightarrow> real \<times> real \<Rightarrow> bool \<Rightarrow> error + int ndarray"

text \<open>
  What the documentation of these functions promises, as far as the properties below
  need it. Every function that maps an array to an array returns one of the same shape.
  \<^verbatim>\<open>label\<close> gives label 0 to the pixels that are false. \<^verbatim>\<open>clean_label\<close> discards labels:
  it gives a non-zero label only to pixels that had one.
\<close>

definition shape_preserving :: "collab \<Rightarrow> bool" where
  "shape_preserving C \<longleftrightarrow>
     (\<forall>a s b. nd_gaussian_filter C a s = Inr b \<longrightarrow> shape b = shape a) \<and>
     (\<forall>a d s b. remove_background C a d s = Inr b \<longrightarrow> shape b = shape a) \<and>
     (\<forall>m n b. nd_binary_erosion C m n = Inr b \<longrightarrow> shape b = shape m) \<and>
     (\<forall>a b. segment_root C a = Inr b \<longrightarrow> shape b = shape a) \<and>
     (\<forall>m l n. nd_label C m = Inr (l, n) \<longrightarrow> shape l = shape m) \<and>
     (\<forall>l d l'. clean_label C l d = Inr l' \<longrightarrow> shape l' = shape l)"

definition label_background :: "collab \<Rightarrow> bool" where
  "label_background C \<longleftrightarrow>
     (\<forall>m l n. nd_label C m = Inr (l, n) \<longrightarrow>
        shape l = shape m \<and>
        (\<forall>i < length m. \<forall>j < length (m ! i). \<not> m ! i ! j \<longrightarrow> l ! i ! j = 0))"

definition clean_discards :: "collab \<Rightarrow> bool" where
  "clean_discards C \<longleftrightarrow>
     (\<forall>l d l'. clean_label C l d = Inr l' \<longrightarrow>
        shape l' = shape l \<and>
        (\<forall>i < length l. \<forall>j < length (l ! i). l ! i ! j = 0 \<longrightarrow> l' ! i ! j = 0))"

text \<open>The external functions return: none of them raises, whatever its arguments.\<close>

definition always_return :: "collab \<Rightarrow> bool" where
  "always_return C \<longleftrightarrow>
     (\<forall>a s. \<exists>b. nd_gaussian_filter C a s = Inr b) \<and>
     (\<forall>a d s. \<exists>b. remove_background C a d s = Inr b) \<and>
     (\<forall>m n. \<exists>b. nd_binary_erosion C m n = Inr b) \<and>
     (\<forall>a. \<exists>b. segment_root C a = Inr b) \<and>
     (\<forall>m. \<exists>l. nd_label C m = Inr l) \<and>
     (\<forall>l d. \<exists>l'. clean_label C l d = Inr l')"

section \<open>The Image class and its serializer\<close>

text \<open>
  \<^verbatim>\<open>a.view(_Image)\<close> makes an \<open>Image\<close> of the array, and \<^verbatim>\<open>set_serializer\<close> stores its
  three arguments with it. The class is not part of the file.
\<close>

record serializer =
  pil_format :: string
  ser_dtype :: string
  ser_scale :: int

record 'a Image =
  pixels :: "'a ndarray"
  serializer :: serializer

definition set_serializer :: "'a ndarray \<Rightarrow> string \<Rightarrow> string \<Rightarrow> int \<Rightarrow> 'a Image" where
  "set_serializer a fmt dt sc =
     \<lparr>pixels = a, serializer = \<lparr>pil_format = fmt, ser_dtype = dt, ser_scale = sc\<rparr>\<rparr>"

text \<open>
  Modelled from the spec: the code of \<^verbatim>\<open>rhizoscan.image.Image\<close> that writes an image with
  its serializer is missing. The specification's data model says of the policy: a linear
  scale factor applied when converting logical values (boolean 0/1, or a plant index)
  into storable pixel intensities, of the storage dtype, here 8-bit unsigned.
\<close>

definition stored_intensity :: "serializer \<Rightarrow> int \<Rightarrow> 8 word" where
  "stored_intensity s v = word_of_int (v * ser_scale s)"

definition stored_bool :: "serializer \<Rightarrow> bool \<Rightarrow> 8 word" where
  "stored_bool s b = stored_intensity s (if b then 1 else 0)"

section \<open>segment_image\<close>

record params =
  root_max_radius :: int
  min_dimension :: int
  smooth :: real

text \<open>The defaults of the signature: \<^verbatim>\<open>root_max_radius=15, min_dimension=50, smooth=1\<close>.\<close>

definition default_params :: params where
  "default_params = \<lparr>root_max_radius = 15, min_dimension = 50, smooth = 1\<rparr>"

text \<open>Line 48: \<^verbatim>\<open>pmask = pmask==pmask.max()\<close>.\<close>

definition binarize :: "('a::linorder) elem ndarray \<Rightarrow> error + bool ndarray" where
  "binarize pmask = bindE (amax pmask) (\<lambda>mx. Inr (eq_scalar pmask mx))"

text \<open>Line 51: \<^verbatim>\<open>bbox = _nd.find_objects(pmask)[0]\<close>.\<close>

definition find_bbox :: "bool ndarray \<Rightarrow> error + bbox" where
  "find_bbox pmask = bindE (nd_find_objects pmask) getitem0"

text \<open>
  Lines 55 to 58, on the view \<^verbatim>\<open>img = image[bbox]\<close> of the caller's array and the cropped
  mask. The result is the caller's array after the step:
  \<^verbatim>\<open>
    if smooth:
        smooth_img  = _nd.gaussian_filter(img*pmask, sigma=smooth)
        smooth_img /= _np.maximum(_nd.gaussian_filter(pmask.astype('f'),sigma=smooth),2**-10)
        img[pmask]  = smooth_img[pmask]
  \<close>
\<close>

definition smooth_divisor :: "collab \<Rightarrow> real \<Rightarrow> bool ndarray \<Rightarrow> error + real ndarray" where
  "smooth_divisor C sm pmask =
     bindE (nd_gaussian_filter C (astype_f pmask) sm) (\<lambda>g. Inr (maximum g (1 / 2 ^ 10)))"

definition smooth_values ::
  "collab \<Rightarrow> real \<Rightarrow> bool ndarray \<Rightarrow> real ndarray \<Rightarrow> error + real ndarray" where
  "smooth_values C sm pmask img =
     bindE (multiply_mask img pmask) (\<lambda>prod.
     bindE (nd_gaussian_filter C prod sm) (\<lambda>smooth_img.
     bindE (smooth_divisor C sm pmask) (\<lambda>d.
     divide_inplace smooth_img d)))"

definition smooth_step ::
  "collab \<Rightarrow> real \<Rightarrow> bbox \<Rightarrow> bool ndarray \<Rightarrow> real ndarray \<Rightarrow> error + real ndarray" where
  "smooth_step C sm bbox pmask image_buf =
     (if sm \<noteq> 0 then
        bindE (smooth_values C sm pmask (getitem_box image_buf bbox)) (\<lambda>smooth_img.
        setitem_mask_view image_buf bbox pmask smooth_img)
      else Inr image_buf)"

text \<open>
  Lines 62 to 68: background removal, erosion of the plate mask, the binary segmentation
  and \<^verbatim>\<open>rmask[-pmask] = 0\<close>.
\<close>

definition binary_step ::
  "collab \<Rightarrow> int \<Rightarrow> bool ndarray \<Rightarrow> real ndarray \<Rightarrow> error + bool ndarray" where
  "binary_step C radius pmask img =
     bindE (remove_background C img radius 1) (\<lambda>img.
     bindE (nd_binary_erosion C pmask radius) (\<lambda>er.
     bindE (multiply_mask img er) (\<lambda>img.
     bindE (segment_root C img) (\<lambda>rmask.
     setitem_mask_zero rmask (negate_mask pmask)))))"

text \<open>Lines 69 to 72.\<close>

definition clean_step :: "collab \<Rightarrow> int \<Rightarrow> bool ndarray \<Rightarrow> error + bool ndarray" where
  "clean_step C min_dim rmask =
     (if min_dim > 0 then
        bindE (nd_label C rmask) (\<lambda>lab.
        bindE (clean_label C (fst lab) min_dim) (\<lambda>cluster.
        Inr (greater_zero cluster)))
      else Inr rmask)"

text \<open>
  The function. It takes the caller's image array and returns, with the pair
  \<open>(rmask, bbox)\<close> of the source, that array as it is after the call. The progress
  messages of \<^verbatim>\<open>_print_state\<close> are left out, and with them the parameter \<open>verbose\<close>, which
  has no other use.
\<close>

definition segment_image ::
  "collab \<Rightarrow> params \<Rightarrow> real ndarray \<Rightarrow> ('a::linorder) elem ndarray
     \<Rightarrow> error + ((bool Image \<times> bbox) \<times> real ndarray)" where
  "segment_image C p image_buf pmask =
     bindE (binarize pmask) (\<lambda>pmask.
     bindE (find_bbox pmask) (\<lambda>bbox.
     bindE (smooth_step C (smooth p) bbox (getitem_box pmask bbox) image_buf) (\<lambda>image_buf.
     bindE (binary_step C (root_max_radius p) (getitem_box pmask bbox)
              (getitem_box image_buf bbox)) (\<lambda>rmask.
     bindE (clean_step C (min_dimension p) rmask) (\<lambda>rmask.
     Inr ((set_serializer rmask ''PNG'' ''uint8'' 255, bbox), image_buf))))))"

section \<open>detect_leaves\<close>

text \<open>\<^verbatim>\<open>a / b\<close> on two Python 2 integers: floor division, ZeroDivisionError when \<open>b\<close> is 0.\<close>

definition py2_div :: "int \<Rightarrow> int \<Rightarrow> error + int" where
  "py2_div a b = (if b = 0 then Inl ZeroDivisionError else Inr (a div b))"

definition detect_leaves ::
  "collab \<Rightarrow> bool ndarray \<Rightarrow> real ndarray \<Rightarrow> bbox \<Rightarrow> int \<Rightarrow> real \<Rightarrow> real \<times> real \<Rightarrow> bool
     \<Rightarrow> error + int Image" where
  "detect_leaves C rmask image_buf bbox plant_number root_min_radius leaf_height sorted_seeds =
     bindE (seed_detect_leaves C rmask (getitem_box image_buf bbox) plant_number
              root_min_radius leaf_height sorted_seeds) (\<lambda>seed_map.
     bindE (py2_div 255 plant_number) (\<lambda>scale.
     Inr (set_serializer seed_map ''PNG'' ''uint8'' scale)))"

section \<open>Concrete external functions\<close>

text \<open>
  \<^verbatim>\<open>scipy.ndimage.gaussian_filter\<close> with its defaults (\<^verbatim>\<open>order=0, mode='reflect',
  truncate=4.0\<close>), in exact arithmetic. The kernel for \<open>sigma\<close> has the offsets from
  \<open>- lw\<close> to \<open>lw\<close>, where \<open>lw\<close> is \<^verbatim>\<open>int(truncate * sigma + 0.5)\<close>, and the weights
  \<open>exp (- k\<^sup>2 / (2 sigma\<^sup>2))\<close> divided by their sum. The array is correlated with the kernel
  along axis 0 and then along axis 1; beyond an edge the array is continued by its mirror
  image, the edge pixel repeated. An axis whose sigma is not above \<open>10\<^sup>-\<^sup>1\<^sup>5\<close> is left as it is.
\<close>

definition gaussian_kernel1d :: "real \<Rightarrow> (int \<times> real) list" where
  "gaussian_kernel1d sigma =
     (let lw = \<lfloor>4 * sigma + 1 / 2\<rfloor>;
          phi = (\<lambda>k. exp (- (1 / 2) / (sigma * sigma) * of_int (k * k)));
          s = sum_list (map phi [- lw..lw])
      in map (\<lambda>k. (k, phi k / s)) [- lw..lw])"

definition reflect_index :: "nat \<Rightarrow> int \<Rightarrow> nat" where
  "reflect_index n i =
     (let m = i mod (2 * int n) in if m < int n then nat m else nat (2 * int n - 1 - m))"

definition correlate_axis0 :: "(int \<times> real) list \<Rightarrow> real ndarray \<Rightarrow> real ndarray" where
  "correlate_axis0 ker a =
     map (\<lambda>i. map (\<lambda>j.
       sum_list (map (\<lambda>kw. snd kw * a ! reflect_index (length a) (int i + fst kw) ! j) ker))
       [0..<length (a ! i)]) [0..<length a]"

definition correlate_axis1 :: "(int \<times> real) list \<Rightarrow> real ndarray \<Rightarrow> real ndarray" where
  "correlate_axis1 ker a =
     map (\<lambda>r. map (\<lambda>j.
       sum_list (map (\<lambda>kw. snd kw * r ! reflect_index (length r) (int j + fst kw)) ker))
       [0..<length r]) a"

definition gaussian_filter :: "real ndarray \<Rightarrow> real \<Rightarrow> error + real ndarray" where
  "gaussian_filter a sigma =
     Inr (if 1 / 10 ^ 15 < sigma
          then correlate_axis1 (gaussian_kernel1d sigma)
                 (correlate_axis0 (gaussian_kernel1d sigma) a)
          else a)"

text \<open>
  A set of external functions on which the pipeline can be run: a background remover
  and an erosion that return their input, a segmenter that marks the positive pixels, a
  labelling with the single label 1, a cleaner that keeps every label, a seed detector
  that finds no seed, and a Gaussian filter that returns its input. The second set has
  scipy's Gaussian filter in its place.
\<close>

definition plain_collab :: collab where
  "plain_collab =
     \<lparr>nd_gaussian_filter = (\<lambda>a s. Inr a),
      remove_background = (\<lambda>a d s. Inr a),
      nd_binary_erosion = (\<lambda>m n. Inr m),
      segment_root = (\<lambda>a. Inr (map (map (\<lambda>v. 0 < v)) a)),
      nd_label = (\<lambda>m. Inr (map (map (\<lambda>b. if b then 1 else 0)) m, 1)),
      clean_label = (\<lambda>l d. Inr l),
      seed_detect_leaves = (\<lambda>m a n r h s. Inr (map (map (\<lambda>b. 0)) m))\<rparr>"

definition gaussian_collab :: collab where
  "gaussian_collab = plain_collab\<lparr>nd_gaussian_filter := gaussian_filter\<rparr>"

section \<open>Notions of the specification\<close>

text \<open>
  The specification's bounding box: the minimal axis-aligned rectangle enclosing all true
  pixels of a mask. A box encloses a mask when every true pixel lies in its two slices,
  and it is minimal when it lies within every box that encloses the mask. A cropped mask
  has true borders when its first and last row and its first and last column each hold a
  true pixel.
\<close>

definition encloses :: "bbox \<Rightarrow> bool ndarray \<Rightarrow> bool" where
  "encloses b m \<longleftrightarrow>
     (\<forall>p \<in> set (true_pixels m). in_slice (fst b) (fst p) \<and> in_slice (snd b) (snd p))"

definition box_within :: "bbox \<Rightarrow> bbox \<Rightarrow> bool" where
  "box_within b b' \<longleftrightarrow>
     fst (fst b') \<le> fst (fst b) \<and> snd (fst b) \<le> snd (fst b') \<and>
     fst (snd b') \<le> fst (snd b) \<and> snd (snd b) \<le> snd (snd b')"

definition minimal_rectangle :: "bbox \<Rightarrow> bool ndarray \<Rightarrow> bool" where
  "minimal_rectangle b m \<longleftrightarrow> encloses b m \<and> (\<forall>b'. encloses b' m \<longrightarrow> box_within b b')"

definition border_true :: "bool ndarray \<Rightarrow> bool" where
  "border_true c \<longleftrightarrow>
     c \<noteq> [] \<and> True \<in> set (hd c) \<and> True \<in> set (last c) \<and>
     (\<exists>r \<in> set c. r \<noteq> [] \<and> hd r) \<and> (\<exists>r \<in> set c. r \<noteq> [] \<and> last r)"

text \<open>The box that the scan of \<open>nd_find_objects\<close> arrives at, in closed form.\<close>

definition pixel_box :: "(nat \<times> nat) list \<Rightarrow> bbox" where
  "pixel_box ps = ((Min (fst ` set ps), Suc (Max (fst ` set ps))),
                   (Min (snd ` set ps), Suc (Max (snd ` set ps))))"

section \<open>A sample input\<close>

text \<open>
  An image of three rows and three columns, and a plate mask whose greatest value 2 is
  taken by three pixels, in rows 1 and 2 and columns 0 and 1.
\<close>

definition demo_image :: "real ndarray" where
  "demo_image = [[1, 2, 3], [4, 5, 6], [7, 8, 9]]"

definition demo_pmask :: "int elem ndarray" where
  "demo_pmask = [[Val 0, Val 0, Val 0], [Val 1, Val 2, Val 0], [Val 2, Val 2, Val 0]]"

section \<open>Properties of the operations\<close>

subsection \<open>Results and errors\<close>

lemma bindE_Inl [simp]: "bindE (Inl e) f = Inl e"
  by (simp add: bindE_def)

lemma bindE_Inr [simp]: "bindE (Inr x) f = f x"
  by (simp add: bindE_def)

lemma bindE_eq_Inr: "bindE m f = Inr y \<longleftrightarrow> (\<exists>x. m = Inr x \<and> f x = Inr y)"
  by (cases m) auto

subsection \<open>The binarized mask and the scan of find_objects\<close>

lemma fold_elem_max_NaN: "fold elem_max xs NaN = NaN"
  by (induction xs) simp_all

lemma fold_elem_max_has_NaN: "NaN \<in> set xs \<Longrightarrow> fold elem_max xs x = NaN"
proof (induction xs arbitrary: x)
  case Nil
  then show ?case by simp
next
  case (Cons y ys)
  show ?case
  proof (cases "y = NaN")
    case True
    then show ?thesis by (simp add: fold_elem_max_NaN)
  next
    case False
    then have "NaN \<in> set ys" using Cons.prems by auto
    then show ?thesis using Cons.IH by simp
  qed
qed

lemma fold_elem_max_Val:
  "NaN \<notin> set xs \<Longrightarrow> \<exists>v. fold elem_max xs (Val x) = Val v \<and> Val v \<in> set (Val x # xs)"
proof (induction xs arbitrary: x)
  case Nil
  then show ?case by simp
next
  case (Cons y ys)
  from Cons.prems obtain b where y: "y = Val b" by (cases y) auto
  from Cons.prems have "NaN \<notin> set ys" by simp
  from Cons.IH [OF this, of "max b x"] obtain v where
    v: "fold elem_max ys (Val (max b x)) = Val v" "Val v \<in> set (Val (max b x) # ys)"
    by blast
  have "max b x = b \<or> max b x = x" by (auto simp: max_def)
  with v(2) have "Val v \<in> set (Val x # y # ys)" using y by auto
  with v(1) show ?case by (auto simp: y)
qed

lemma amax_nan_free:
  assumes "concat a \<noteq> []" "nan_free a"
  shows "\<exists>v. amax a = Inr (Val v) \<and> Val v \<in> set (concat a)"
proof -
  obtain y ys where c: "concat a = y # ys"
    using assms(1) by (cases "concat a") auto
  have n: "y \<noteq> NaN" "NaN \<notin> set ys" using assms(2) unfolding nan_free_def c by auto
  then obtain x where y: "y = Val x" by (cases y) auto
  from fold_elem_max_Val [OF n(2), of x] obtain v where
    "fold elem_max ys (Val x) = Val v" "Val v \<in> set (Val x # ys)" by blast
  then have "amax a = Inr (Val v)" "Val v \<in> set (concat a)"
    unfolding amax_def c y by simp_all
  then show ?thesis by blast
qed

lemma amax_nan:
  assumes "\<not> nan_free a"
  shows "amax a = Inr NaN"
proof -
  have m: "NaN \<in> set (concat a)" using assms by (simp add: nan_free_def)
  then obtain y ys where c: "concat a = y # ys" by (cases "concat a") auto
  have "fold elem_max ys y = NaN"
  proof (cases "y = NaN")
    case True
    then show ?thesis by (simp add: fold_elem_max_NaN)
  next
    case False
    then have "NaN \<in> set ys" using m unfolding c by auto
    then show ?thesis by (rule fold_elem_max_has_NaN)
  qed
  then show ?thesis unfolding amax_def c by simp
qed

lemma amax_empty:
  assumes "concat a = []"
  shows "amax a = Inl ValueError"
  unfolding amax_def by (simp only: assms list.case)

lemma mem_true_pixels:
  "(i, j) \<in> set (true_pixels m) \<longleftrightarrow> i < length m \<and> j < length (m ! i) \<and> m ! i ! j"
  by (auto simp: true_pixels_def)

lemma foldl_grow_Some:
  "foldl grow (Some ((r0, r1), (c0, c1))) ps =
     Some ((fold min (map fst ps) r0, fold max (map (\<lambda>p. Suc (fst p)) ps) r1),
           (fold min (map snd ps) c0, fold max (map (\<lambda>p. Suc (snd p)) ps) c1))"
proof (induction ps arbitrary: r0 r1 c0 c1)
  case Nil
  show ?case by simp
next
  case (Cons p ps)
  obtain i j where p: "p = (i, j)" by (cases p)
  show ?case
    by (simp add: p Cons.IH min.commute max.commute)
qed

lemma foldl_grow_None:
  "foldl grow None ((i, j) # ps) =
     Some ((Min (fst ` set ((i, j) # ps)), Suc (Max (fst ` set ((i, j) # ps)))),
           (Min (snd ` set ((i, j) # ps)), Suc (Max (snd ` set ((i, j) # ps)))))"
proof -
  have a: "fold min (map fst ps) i = Min (set (i # map fst ps))"
    by (rule Min.set_eq_fold [symmetric])
  have b: "fold min (map snd ps) j = Min (set (j # map snd ps))"
    by (rule Min.set_eq_fold [symmetric])
  have c: "fold max (map (\<lambda>p. Suc (fst p)) ps) (Suc i) = Max (set (Suc i # map (\<lambda>p. Suc (fst p)) ps))"
    by (rule Max.set_eq_fold [symmetric])
  have d: "fold max (map (\<lambda>p. Suc (snd p)) ps) (Suc j) = Max (set (Suc j # map (\<lambda>p. Suc (snd p)) ps))"
    by (rule Max.set_eq_fold [symmetric])
  have e: "Max (set (Suc i # map (\<lambda>p. Suc (fst p)) ps)) = Suc (Max (fst ` set ((i, j) # ps)))"
    using mono_Max_commute [of Suc "fst ` set ((i, j) # ps)"]
    by (simp add: mono_def image_image)
  have f: "Max (set (Suc j # map (\<lambda>p. Suc (snd p)) ps)) = Suc (Max (snd ` set ((i, j) # ps)))"
    using mono_Max_commute [of Suc "snd ` set ((i, j) # ps)"]
    by (simp add: mono_def image_image)
  show ?thesis
    by (simp add: foldl_grow_Some a b c d e f del: Max_insert Min_insert set_simps)
       (simp add: a b)
qed

lemma asize_pos_iff: "0 < asize a \<longleftrightarrow> concat a \<noteq> []"
  by (simp add: asize_def)

lemma concat_eq_scalar: "concat (eq_scalar a v) = map (\<lambda>x. elem_eq x v) (concat a)"
  by (simp add: eq_scalar_def map_concat)

lemma shape_eq_scalar: "shape (eq_scalar a v) = shape a"
  by (simp add: shape_def eq_scalar_def)

lemma asize_eq_scalar: "asize (eq_scalar a v) = asize a"
  by (simp add: asize_def concat_eq_scalar)

lemma nth_concat_ex:
  "x \<in> set (concat a) \<longleftrightarrow> (\<exists>i < length a. \<exists>j < length (a ! i). a ! i ! j = x)"
proof
  assume "x \<in> set (concat a)"
  then obtain r where r: "r \<in> set a" "x \<in> set r" by auto
  from r(1) obtain i where i: "i < length a" "a ! i = r" by (auto simp: in_set_conv_nth)
  from r(2) obtain j where j: "j < length r" "r ! j = x" by (auto simp: in_set_conv_nth)
  from i j show "\<exists>i < length a. \<exists>j < length (a ! i). a ! i ! j = x" by auto
next
  assume "\<exists>i < length a. \<exists>j < length (a ! i). a ! i ! j = x"
  then obtain i j where "i < length a" "j < length (a ! i)" "a ! i ! j = x" by blast
  then have "a ! i \<in> set a" "x \<in> set (a ! i)" by (auto simp: in_set_conv_nth)
  then show "x \<in> set (concat a)" by auto
qed

lemma binarize_empty: "asize pmask = 0 \<Longrightarrow> binarize pmask = Inl ValueError"
  by (simp add: binarize_def amax_empty asize_def)

lemma binarize_has_true:
  assumes "0 < asize pmask" "nan_free pmask"
  shows "\<exists>m. binarize pmask = Inr m \<and> shape m = shape pmask \<and> true_pixels m \<noteq> []"
proof -
  have ne: "concat pmask \<noteq> []" using assms(1) by (simp add: asize_pos_iff)
  from amax_nan_free [OF ne assms(2)] obtain v where
    v: "amax pmask = Inr (Val v)" "Val v \<in> set (concat pmask)" by blast
  let ?m = "eq_scalar pmask (Val v)"
  from v(2) obtain i j where ij: "i < length pmask" "j < length (pmask ! i)"
    "pmask ! i ! j = Val v"
    unfolding nth_concat_ex by blast
  then have "(i, j) \<in> set (true_pixels ?m)"
    by (simp add: mem_true_pixels eq_scalar_def)
  then have "true_pixels ?m \<noteq> []" by auto
  moreover have "binarize pmask = Inr ?m" by (simp add: binarize_def v(1))
  ultimately show ?thesis using shape_eq_scalar by blast
qed

lemma true_pixels_eq_NaN: "true_pixels (eq_scalar a NaN) = []"
proof -
  have "(i, j) \<notin> set (true_pixels (eq_scalar a NaN))" for i j
    by (auto simp: mem_true_pixels eq_scalar_def)
  then show ?thesis by (cases "true_pixels (eq_scalar a NaN)") auto
qed

lemma binarize_nan:
  assumes "\<not> nan_free pmask"
  shows "binarize pmask = Inr (eq_scalar pmask NaN)"
  by (simp add: binarize_def amax_nan [OF assms])

lemma binarize_InrD:
  assumes "binarize pmask = Inr m"
  shows "0 < asize pmask" and "asize m = asize pmask" and "shape m = shape pmask"
    and "true_pixels m = [] \<longleftrightarrow> \<not> nan_free pmask"
proof -
  show pos: "0 < asize pmask"
  proof (rule ccontr)
    assume "\<not> 0 < asize pmask"
    then have "binarize pmask = Inl ValueError" by (simp add: binarize_empty)
    with assms show False by simp
  qed
  from assms obtain mx where m: "m = eq_scalar pmask mx"
    unfolding binarize_def by (cases "amax pmask") auto
  show "asize m = asize pmask" "shape m = shape pmask"
    by (simp_all add: m asize_eq_scalar shape_eq_scalar)
  show "true_pixels m = [] \<longleftrightarrow> \<not> nan_free pmask"
  proof (cases "nan_free pmask")
    case True
    from binarize_has_true [OF pos True] assms show ?thesis using True by auto
  next
    case False
    from binarize_nan [OF False] assms have "m = eq_scalar pmask NaN" by simp
    then show ?thesis using False by (simp add: true_pixels_eq_NaN)
  qed
qed

lemma true_pixels_asize: "true_pixels m \<noteq> [] \<Longrightarrow> 0 < asize m"
proof -
  assume "true_pixels m \<noteq> []"
  then obtain i j where "(i, j) \<in> set (true_pixels m)"
    by (cases "true_pixels m") auto
  then have "i < length m" "j < length (m ! i)"
    by (simp_all add: mem_true_pixels)
  then have "m ! i ! j \<in> set (concat m)" unfolding nth_concat_ex by blast
  then have "concat m \<noteq> []" by (cases "concat m") simp_all
  then show ?thesis by (simp add: asize_pos_iff)
qed

lemma find_bbox_Inr:
  assumes "true_pixels m \<noteq> []"
  shows "find_bbox m = Inr (pixel_box (true_pixels m))"
proof -
  obtain i j ps where ps: "true_pixels m = (i, j) # ps"
    using assms by (cases "true_pixels m") auto
  have "asize m \<noteq> 0" using true_pixels_asize [OF assms] by simp
  then show ?thesis
    unfolding find_bbox_def nd_find_objects_def ps foldl_grow_None pixel_box_def
    by (simp add: getitem0_def)
qed

lemma find_bbox_no_true:
  assumes "true_pixels m = []" and "0 < asize m"
  shows "find_bbox m = Inl IndexError"
  using assms by (simp add: find_bbox_def nd_find_objects_def getitem0_def)

lemma find_bbox_empty: "asize m = 0 \<Longrightarrow> find_bbox m = Inl ValueError"
  by (simp add: find_bbox_def nd_find_objects_def)

lemma pixel_box_encloses: "encloses (pixel_box (true_pixels m)) m"
  by (auto simp: encloses_def pixel_box_def in_slice_def intro!: Min_le le_imp_less_Suc Max_ge)

lemma pixel_box_least:
  assumes "encloses b' m" and "true_pixels m \<noteq> []"
  shows "box_within (pixel_box (true_pixels m)) b'"
proof -
  let ?ps = "set (true_pixels m)"
  have ne: "?ps \<noteq> {}" using assms(2) by simp
  have fin: "finite (fst ` ?ps)" "finite (snd ` ?ps)" by simp_all
  have "\<forall>i \<in> fst ` ?ps. fst (fst b') \<le> i \<and> Suc i \<le> snd (fst b')"
    using assms(1) by (auto simp: encloses_def in_slice_def)
  moreover have "\<forall>j \<in> snd ` ?ps. fst (snd b') \<le> j \<and> Suc j \<le> snd (snd b')"
    using assms(1) by (auto simp: encloses_def in_slice_def)
  moreover have "Min (fst ` ?ps) \<in> fst ` ?ps" "Max (fst ` ?ps) \<in> fst ` ?ps"
    "Min (snd ` ?ps) \<in> snd ` ?ps" "Max (snd ` ?ps) \<in> snd ` ?ps"
    using ne by (simp_all only: Min_in Max_in fin image_is_empty not_False_eq_True)
  ultimately show ?thesis
    unfolding box_within_def pixel_box_def fst_conv snd_conv by blast
qed

lemma pixel_box_minimal:
  "true_pixels m \<noteq> [] \<Longrightarrow> minimal_rectangle (pixel_box (true_pixels m)) m"
  by (simp add: minimal_rectangle_def pixel_box_encloses pixel_box_least)

subsection \<open>Slices and the borders of the box\<close>

lemma length_getitem_slice:
  "length (getitem_slice xs (s0, s1)) = min (s1 - s0) (length xs - s0)"
  by (simp add: getitem_slice_def)

lemma nth_getitem_slice:
  "k < s1 - s0 \<Longrightarrow> s0 + k < length xs \<Longrightarrow> getitem_slice xs (s0, s1) ! k = xs ! (s0 + k)"
  by (simp add: getitem_slice_def)

lemma length_getitem_box:
  "length (getitem_box a ((r0, r1), cs)) = min (r1 - r0) (length a - r0)"
  by (simp add: getitem_box_def length_getitem_slice)

lemma nth_getitem_box:
  assumes "k < r1 - r0" "r0 + k < length a"
  shows "getitem_box a ((r0, r1), cs) ! k = getitem_slice (a ! (r0 + k)) cs"
proof -
  have "k < length (getitem_slice a (r0, r1))"
    using assms by (simp add: length_getitem_slice)
  then show ?thesis
    by (simp add: getitem_box_def nth_getitem_slice [OF assms])
qed

lemma getitem_box_at:
  assumes "r0 \<le> i" "i < r1" "i < length a" "c0 \<le> j" "j < c1" "j < length (a ! i)"
  shows "getitem_box a ((r0, r1), (c0, c1)) ! (i - r0) ! (j - c0) = a ! i ! j"
    and "i - r0 < length (getitem_box a ((r0, r1), (c0, c1)))"
    and "j - c0 < length (getitem_box a ((r0, r1), (c0, c1)) ! (i - r0))"
proof -
  have k: "i - r0 < r1 - r0" "r0 + (i - r0) < length a" "r0 + (i - r0) = i"
    using assms by simp_all
  have l: "j - c0 < c1 - c0" "c0 + (j - c0) < length (a ! i)" "c0 + (j - c0) = j"
    using assms by simp_all
  have row: "getitem_box a ((r0, r1), (c0, c1)) ! (i - r0) = getitem_slice (a ! i) (c0, c1)"
    using nth_getitem_box [OF k(1,2), of "(c0, c1)"] by (simp only: k(3))
  show "getitem_box a ((r0, r1), (c0, c1)) ! (i - r0) ! (j - c0) = a ! i ! j"
    using nth_getitem_slice [OF l(1,2)] by (simp only: row l(3))
  show "i - r0 < length (getitem_box a ((r0, r1), (c0, c1)))"
    using k by (simp add: length_getitem_box)
  show "j - c0 < length (getitem_box a ((r0, r1), (c0, c1)) ! (i - r0))"
    using l by (simp add: row length_getitem_slice)
qed

lemma pixel_box_border:
  assumes ne: "true_pixels m \<noteq> []"
  shows "border_true (getitem_box m (pixel_box (true_pixels m)))"
proof -
  let ?ps = "set (true_pixels m)"
  define r0 where "r0 = Min (fst ` ?ps)"
  define r1 where "r1 = Suc (Max (fst ` ?ps))"
  define c0 where "c0 = Min (snd ` ?ps)"
  define c1 where "c1 = Suc (Max (snd ` ?ps))"
  define c where "c = getitem_box m ((r0, r1), (c0, c1))"
  have pb: "pixel_box (true_pixels m) = ((r0, r1), (c0, c1))"
    by (simp add: pixel_box_def r0_def r1_def c0_def c1_def)
  have nes: "?ps \<noteq> {}" using ne by simp
  have inb: "r0 \<le> i \<and> i < r1 \<and> c0 \<le> j \<and> j < c1" if "(i, j) \<in> ?ps" for i j
    using pixel_box_encloses [of m] that unfolding pb encloses_def in_slice_def by force
  have at: "c ! (i - r0) ! (j - c0) \<and> i - r0 < length c \<and> j - c0 < length (c ! (i - r0))"
    if "(i, j) \<in> ?ps" for i j
  proof -
    have b: "r0 \<le> i" "i < r1" "c0 \<le> j" "j < c1" using inb [OF that] by simp_all
    have mij: "i < length m" "j < length (m ! i)" "m ! i ! j"
      using that by (simp_all add: mem_true_pixels)
    show ?thesis
      unfolding c_def
      using getitem_box_at [OF b(1,2) mij(1) b(3,4) mij(2)] mij(3) by simp
  qed
  have "r0 \<in> fst ` ?ps" unfolding r0_def using nes by (intro Min_in) auto
  then obtain jt where top: "(r0, jt) \<in> ?ps" by force
  have "r1 - 1 \<in> fst ` ?ps" unfolding r1_def using nes Max_in [of "fst ` ?ps"] by simp
  then obtain jb where bot: "(r1 - 1, jb) \<in> ?ps" by force
  have "c0 \<in> snd ` ?ps" unfolding c0_def using nes by (intro Min_in) auto
  then obtain il where left: "(il, c0) \<in> ?ps" by force
  have "c1 - 1 \<in> snd ` ?ps" unfolding c1_def using nes Max_in [of "snd ` ?ps"] by simp
  then obtain ir where right: "(ir, c1 - 1) \<in> ?ps" by force
  have lenc: "length c = r1 - r0"
  proof -
    have "r1 - 1 < length m" using bot by (simp add: mem_true_pixels)
    moreover have "r0 < r1" using inb [OF top] by simp
    ultimately show ?thesis unfolding c_def by (simp add: length_getitem_box)
  qed
  have cne: "c \<noteq> []" using at [OF top] by auto
  have t: "True \<in> set (hd c)"
  proof -
    have "c ! 0 ! (jt - c0)" "jt - c0 < length (c ! 0)" using at [OF top] by simp_all
    then have "True \<in> set (c ! 0)" using nth_mem by fastforce
    then show ?thesis using cne by (simp add: hd_conv_nth)
  qed
  have b: "True \<in> set (last c)"
  proof -
    have "c ! (r1 - 1 - r0) ! (jb - c0)" "jb - c0 < length (c ! (r1 - 1 - r0))"
      using at [OF bot] by simp_all
    then have "True \<in> set (c ! (r1 - 1 - r0))" using nth_mem by fastforce
    moreover have "r1 - 1 - r0 = length c - 1" using lenc by simp
    ultimately show ?thesis using cne by (simp add: last_conv_nth)
  qed
  have l: "\<exists>r \<in> set c. r \<noteq> [] \<and> hd r"
  proof -
    let ?r = "c ! (il - r0)"
    have a: "?r ! 0" "il - r0 < length c" "0 < length ?r" using at [OF left] by simp_all
    then have "?r \<in> set c" "?r \<noteq> []" "hd ?r" by (simp_all add: hd_conv_nth)
    then show ?thesis by blast
  qed
  have r: "\<exists>r \<in> set c. r \<noteq> [] \<and> last r"
  proof -
    let ?r = "c ! (ir - r0)"
    have a: "?r ! (c1 - 1 - c0)" "ir - r0 < length c" "c1 - 1 - c0 < length ?r"
      using at [OF right] by simp_all
    have bnd: "r0 \<le> ir" "ir < r1" "c0 \<le> c1 - 1" "c1 - 1 < c1" using inb [OF right] by simp_all
    have mij: "ir < length m" "c1 - 1 < length (m ! ir)"
      using right by (simp_all add: mem_true_pixels)
    have "?r = getitem_slice (m ! ir) (c0, c1)"
      unfolding c_def using nth_getitem_box [of "ir - r0" r1 r0 m "(c0, c1)"] bnd mij by simp
    then have "length ?r = c1 - c0"
      using mij bnd by (simp add: length_getitem_slice)
    then have e: "c1 - 1 - c0 = length ?r - 1" by simp
    have ne: "?r \<noteq> []" using a(3) by auto
    have "last ?r = ?r ! (length ?r - 1)" using ne by (rule last_conv_nth)
    then have "last ?r" using a(1) by (simp only: e)
    moreover have "?r \<in> set c" using a(2) by simp
    ultimately show ?thesis using ne by blast
  qed
  show ?thesis
    unfolding pb c_def [symmetric] border_true_def using cne t b l r by simp
qed

subsection \<open>The steps of a run, and sample runs\<close>

lemma segment_image_InrI:
  assumes "binarize pmask = Inr m" "find_bbox m = Inr bb"
    "smooth_step C (smooth p) bb (getitem_box m bb) image_buf = Inr buf'"
    "binary_step C (root_max_radius p) (getitem_box m bb) (getitem_box buf' bb) = Inr r0"
    "clean_step C (min_dimension p) r0 = Inr r1"
  shows "segment_image C p image_buf pmask = Inr ((set_serializer r1 ''PNG'' ''uint8'' 255, bb), buf')"
  using assms by (simp add: segment_image_def)

lemma segment_image_InrD:
  assumes "segment_image C p image_buf pmask = Inr ((rm, bb), buf')"
  shows "\<exists>m r0 r1. binarize pmask = Inr m \<and> find_bbox m = Inr bb \<and>
        smooth_step C (smooth p) bb (getitem_box m bb) image_buf = Inr buf' \<and>
        binary_step C (root_max_radius p) (getitem_box m bb) (getitem_box buf' bb) = Inr r0 \<and>
        clean_step C (min_dimension p) r0 = Inr r1 \<and>
        rm = set_serializer r1 ''PNG'' ''uint8'' 255"
proof -
  from assms obtain m where m: "binarize pmask = Inr m"
    and 1: "bindE (find_bbox m) (\<lambda>bbox.
     bindE (smooth_step C (smooth p) bbox (getitem_box m bbox) image_buf) (\<lambda>image_buf.
     bindE (binary_step C (root_max_radius p) (getitem_box m bbox)
              (getitem_box image_buf bbox)) (\<lambda>rmask.
     bindE (clean_step C (min_dimension p) rmask) (\<lambda>rmask.
     Inr ((set_serializer rmask ''PNG'' ''uint8'' 255, bbox), image_buf))))) = Inr ((rm, bb), buf')"
    unfolding segment_image_def by (cases "binarize pmask") simp_all
  from 1 obtain b where b: "find_bbox m = Inr b"
    and 2: "bindE (smooth_step C (smooth p) b (getitem_box m b) image_buf) (\<lambda>image_buf.
     bindE (binary_step C (root_max_radius p) (getitem_box m b)
              (getitem_box image_buf b)) (\<lambda>rmask.
     bindE (clean_step C (min_dimension p) rmask) (\<lambda>rmask.
     Inr ((set_serializer rmask ''PNG'' ''uint8'' 255, b), image_buf)))) = Inr ((rm, bb), buf')"
    by (cases "find_bbox m") simp_all
  from 2 obtain u where u: "smooth_step C (smooth p) b (getitem_box m b) image_buf = Inr u"
    and 3: "bindE (binary_step C (root_max_radius p) (getitem_box m b)
              (getitem_box u b)) (\<lambda>rmask.
     bindE (clean_step C (min_dimension p) rmask) (\<lambda>rmask.
     Inr ((set_serializer rmask ''PNG'' ''uint8'' 255, b), u))) = Inr ((rm, bb), buf')"
    by (cases "smooth_step C (smooth p) b (getitem_box m b) image_buf") simp_all
  from 3 obtain r0 where r0: "binary_step C (root_max_radius p) (getitem_box m b)
              (getitem_box u b) = Inr r0"
    and 4: "bindE (clean_step C (min_dimension p) r0) (\<lambda>rmask.
     Inr ((set_serializer rmask ''PNG'' ''uint8'' 255, b), u)) = Inr ((rm, bb), buf')"
    by (cases "binary_step C (root_max_radius p) (getitem_box m b) (getitem_box u b)") simp_all
  from 4 obtain r1 where r1: "clean_step C (min_dimension p) r0 = Inr r1"
    and 5: "rm = set_serializer r1 ''PNG'' ''uint8'' 255" "b = bb" "u = buf'"
    by (cases "clean_step C (min_dimension p) r0") auto
  from m b u r0 r1 5 show ?thesis by blast
qed

lemma find_bbox_Inr_iff:
  "find_bbox m = Inr bb \<longleftrightarrow> true_pixels m \<noteq> [] \<and> bb = pixel_box (true_pixels m)"
proof (cases "true_pixels m = []")
  case True
  then show ?thesis
    by (cases "asize m = 0") (simp_all add: find_bbox_empty find_bbox_no_true)
next
  case False
  then show ?thesis by (auto simp: find_bbox_Inr)
qed

lemma true_pixels_all_true:
  "set (true_pixels (replicate h (replicate w True))) = {0..<h} \<times> {0..<w}"
proof -
  have "p \<in> set (true_pixels (replicate h (replicate w True))) \<longleftrightarrow> p \<in> {0..<h} \<times> {0..<w}" for p
    by (cases p) (auto simp: mem_true_pixels)
  then show ?thesis by blast
qed

lemma pixel_box_all_true:
  assumes "0 < h" "0 < w"
  shows "pixel_box (true_pixels (replicate h (replicate w True))) = ((0, h), (0, w))"
proof -
  have a: "{0..<h} \<noteq> {}" "{0..<w} \<noteq> {}" using assms by simp_all
  have mm: "Min {0..<n} = 0 \<and> Max {0..<n} = n - 1" if "0 < n" for n :: nat
  proof
    show "Min {0..<n} = 0" using that by (intro Min_eqI) auto
    show "Max {0..<n} = n - 1" using that by (intro Max_eqI) auto
  qed
  have "Min {0..<h} = 0" "Max {0..<h} = h - 1" "Min {0..<w} = 0" "Max {0..<w} = w - 1"
    using mm [OF assms(1)] mm [OF assms(2)] by simp_all
  then show ?thesis
    unfolding pixel_box_def true_pixels_all_true
    using a assms by simp
qed

lemma binarize_all_false:
  assumes "0 < h" "0 < w"
  shows "binarize (replicate h (replicate w (Val False)))
           = Inr (replicate h (replicate w True))"
proof -
  let ?a = "replicate h (replicate w (Val False))"
  have s: "set (concat ?a) = {Val False}" using assms by auto
  then have ne: "concat ?a \<noteq> []" by (cases "concat ?a") simp_all
  have nf: "nan_free ?a" unfolding nan_free_def s by simp
  from amax_nan_free [OF ne nf] obtain v where
    "amax ?a = Inr (Val v)" "Val v \<in> set (concat ?a)" by blast
  then have "amax ?a = Inr (Val False)" unfolding s by simp
  then show ?thesis by (simp add: binarize_def eq_scalar_def)
qed

lemma find_objects_singleton:
  assumes "true_pixels m \<noteq> []"
  shows "nd_find_objects m = Inr [pixel_box (true_pixels m)]"
proof -
  obtain i j ps where ps: "true_pixels m = (i, j) # ps"
    using assms by (cases "true_pixels m") auto
  have "asize m \<noteq> 0" using true_pixels_asize [OF assms] by simp
  then show ?thesis
    unfolding nd_find_objects_def ps foldl_grow_None pixel_box_def by simp
qed

lemma demo_binarize:
  "binarize demo_pmask = Inr [[False, False, False], [False, True, False], [True, True, False]]"
  by code_simp

lemma demo_run:
  "segment_image plain_collab default_params demo_image demo_pmask =
     Inr ((set_serializer [[False, True], [True, True]] ''PNG'' ''uint8'' 255,
           ((1, 3), (0, 2))), demo_image)"
  by code_simp

lemma find_bbox_cases:
  "find_bbox m = Inl ValueError \<or> find_bbox m = Inl IndexError
     \<or> find_bbox m = Inr (pixel_box (true_pixels m))"
proof (cases "true_pixels m = []")
  case True
  then show ?thesis
    by (cases "asize m = 0") (simp_all add: find_bbox_empty find_bbox_no_true)
next
  case False
  then show ?thesis by (simp add: find_bbox_Inr)
qed

lemma binary_step_gaussian [simp]:
  "binary_step (C\<lparr>nd_gaussian_filter := g\<rparr>) r pm img = binary_step C r pm img"
  by (simp add: binary_step_def)

lemma clean_step_gaussian [simp]:
  "clean_step (C\<lparr>nd_gaussian_filter := g\<rparr>) d rmask = clean_step C d rmask"
  by (simp add: clean_step_def)

subsection \<open>Shapes and element-wise operations\<close>

lemma shape_eqD:
  assumes "shape a = shape b"
  shows "length a = length b" and "i < length a \<Longrightarrow> length (a ! i) = length (b ! i)"
proof -
  show l: "length a = length b"
    using assms unfolding shape_def by (rule map_eq_imp_length_eq)
  assume i: "i < length a"
  have "map length a ! i = map length b ! i" using assms by (simp add: shape_def)
  then show "length (a ! i) = length (b ! i)" using i l by simp
qed

lemma shape2_cong:
  assumes "shape a = shape b"
  shows "shape2 a = shape2 b"
proof -
  have l: "length a = length b" using assms by (rule shape_eqD)
  show ?thesis
  proof (cases a)
    case Nil
    then show ?thesis using l by (simp add: shape2_def)
  next
    case (Cons r rs)
    then obtain r' rs' where b: "b = r' # rs'" using l by (cases b) auto
    with Cons assms l show ?thesis by (simp add: shape2_def shape_def)
  qed
qed

lemma shape_map_map [simp]: "shape (map (map f) a) = shape a"
  by (simp add: shape_def comp_def)

lemma shape_map2:
  assumes "shape a = shape b"
  shows "shape (map2 (\<lambda>r s. map2 f r s) a b) = shape a"
proof -
  have l: "length a = length b" using assms by (rule shape_eqD)
  show ?thesis
    unfolding shape_def
  proof (rule nth_equalityI)
    show "length (map length (map2 (\<lambda>r s. map2 f r s) a b)) = length (map length a)"
      using l by simp
  next
    fix i assume "i < length (map length (map2 (\<lambda>r s. map2 f r s) a b))"
    then have i: "i < length a" "i < length b" using l by simp_all
    then have "length (a ! i) = length (b ! i)" using shape_eqD(2) [OF assms] by simp
    then show "map length (map2 (\<lambda>r s. map2 f r s) a b) ! i = map length a ! i"
      using i by simp
  qed
qed

lemma nth_map2_2d:
  assumes "shape a = shape b" "i < length a" "j < length (a ! i)"
  shows "map2 (\<lambda>r s. map2 f r s) a b ! i ! j = f (a ! i ! j) (b ! i ! j)"
proof -
  have l: "length a = length b" using assms(1) by (rule shape_eqD)
  have r: "length (a ! i) = length (b ! i)" using shape_eqD(2) [OF assms(1,2)] .
  show ?thesis using assms(2,3) l r by simp
qed

lemma zip2d_Inr:
  assumes "zip2d f a b = Inr c"
  shows "shape a = shape b" and "shape c = shape a"
    and "i < length a \<Longrightarrow> j < length (a ! i) \<Longrightarrow> c ! i ! j = f (a ! i ! j) (b ! i ! j)"
proof -
  show s: "shape a = shape b" using assms by (simp add: zip2d_def split: if_splits)
  then have c: "c = map2 (\<lambda>r s. map2 f r s) a b" using assms by (simp add: zip2d_def)
  show "shape c = shape a" unfolding c using s by (rule shape_map2)
  assume "i < length a" "j < length (a ! i)"
  then show "c ! i ! j = f (a ! i ! j) (b ! i ! j)" unfolding c using s by (simp add: nth_map2_2d)
qed

lemma zip2d_same_shape: "shape a = shape b \<Longrightarrow> zip2d f a b = Inr (map2 (\<lambda>r s. map2 f r s) a b)"
  by (simp add: zip2d_def)

lemma setitem_mask_zero_Inr:
  assumes "setitem_mask_zero a m = Inr c"
  shows "shape a = shape m" and "shape c = shape m"
    and "i < length m \<Longrightarrow> j < length (m ! i) \<Longrightarrow> c ! i ! j = (if m ! i ! j then False else a ! i ! j)"
proof -
  show s: "shape a = shape m" using assms by (simp add: setitem_mask_zero_def split: if_splits)
  then have c: "c = map2 (\<lambda>r s. map2 (\<lambda>v b. if b then False else v) r s) a m"
    using assms by (simp add: setitem_mask_zero_def)
  show "shape c = shape m" unfolding c using s shape_map2 [OF s] by simp
  assume ij: "i < length m" "j < length (m ! i)"
  have "i < length a" using ij shape_eqD(1) [OF s] by simp
  moreover from this have "j < length (a ! i)" using ij shape_eqD(2) [OF s] by simp
  ultimately show "c ! i ! j = (if m ! i ! j then False else a ! i ! j)"
    unfolding c using s by (simp add: nth_map2_2d)
qed

lemma binary_step_Inr:
  assumes "binary_step C r pm img = Inr rm"
  shows "shape rm = shape pm"
    and "i < length pm \<Longrightarrow> j < length (pm ! i) \<Longrightarrow> \<not> pm ! i ! j \<Longrightarrow> \<not> rm ! i ! j"
proof -
  from assms obtain a where a: "setitem_mask_zero a (negate_mask pm) = Inr rm"
    unfolding binary_step_def bindE_eq_Inr by blast
  have s: "shape (negate_mask pm) = shape pm" by (simp add: negate_mask_def)
  show "shape rm = shape pm" using setitem_mask_zero_Inr(2) [OF a] s by simp
  assume ij: "i < length pm" "j < length (pm ! i)" "\<not> pm ! i ! j"
  have l: "length (negate_mask pm) = length pm" "length (negate_mask pm ! i) = length (pm ! i)"
    "negate_mask pm ! i ! j" using ij by (simp_all add: negate_mask_def)
  show "\<not> rm ! i ! j"
    using setitem_mask_zero_Inr(3) [OF a, of i j] ij l by simp
qed

subsection \<open>The cleaning step\<close>

lemma clean_step_InrD:
  assumes "0 < d" "clean_step C d r = Inr r'"
  shows "\<exists>la n cl. nd_label C r = Inr (la, n) \<and> clean_label C la d = Inr cl
           \<and> r' = greater_zero cl"
proof -
  from assms have 1: "bindE (nd_label C r) (\<lambda>lab.
        bindE (clean_label C (fst lab) d) (\<lambda>cluster. Inr (greater_zero cluster))) = Inr r'"
    by (simp add: clean_step_def)
  then obtain lab where l: "nd_label C r = Inr lab"
    and 2: "bindE (clean_label C (fst lab) d) (\<lambda>cluster. Inr (greater_zero cluster)) = Inr r'"
    by (cases "nd_label C r") simp_all
  from 2 obtain cl where c: "clean_label C (fst lab) d = Inr cl" and r: "r' = greater_zero cl"
    by (cases "clean_label C (fst lab) d") auto
  obtain la n where "lab = (la, n)" by (cases lab)
  with l c r show ?thesis by simp
qed

lemma clean_step_shape:
  assumes "shape_preserving C" "clean_step C d r = Inr r'"
  shows "shape r' = shape r"
proof (cases "0 < d")
  case False
  with assms(2) show ?thesis by (simp add: clean_step_def)
next
  case True
  from clean_step_InrD [OF True assms(2)] obtain la n cl where
    l: "nd_label C r = Inr (la, n)" and c: "clean_label C la d = Inr cl"
    and r': "r' = greater_zero cl"
    by blast
  have "\<forall>m l n. nd_label C m = Inr (l, n) \<longrightarrow> shape l = shape m"
    and "\<forall>l d l'. clean_label C l d = Inr l' \<longrightarrow> shape l' = shape l"
    using assms(1) by (simp_all add: shape_preserving_def)
  then have "shape la = shape r" "shape cl = shape la" using l c by blast+
  then show ?thesis by (simp add: r' greater_zero_def)
qed

lemma clean_step_outside:
  assumes "0 < d \<Longrightarrow> label_background C \<and> clean_discards C"
    and "clean_step C d r = Inr r'"
  shows "shape r' = shape r"
    and "i < length r \<Longrightarrow> j < length (r ! i) \<Longrightarrow> \<not> r ! i ! j \<Longrightarrow> \<not> r' ! i ! j"
proof -
  have "shape r' = shape r \<and> (i < length r \<longrightarrow> j < length (r ! i) \<longrightarrow> \<not> r ! i ! j \<longrightarrow> \<not> r' ! i ! j)"
  proof (cases "0 < d")
    case False
    with assms(2) show ?thesis by (simp add: clean_step_def)
  next
    case True
    from clean_step_InrD [OF True assms(2)] obtain la n cl where
      l: "nd_label C r = Inr (la, n)" and c: "clean_label C la d = Inr cl"
      and r': "r' = greater_zero cl"
      by blast
    have lb: "label_background C" and cd: "clean_discards C" using assms(1) True by simp_all
    have "shape la = shape r \<and>
        (\<forall>i < length r. \<forall>j < length (r ! i). \<not> r ! i ! j \<longrightarrow> la ! i ! j = 0)"
      using lb l unfolding label_background_def by blast
    then have sl: "shape la = shape r"
      and zl: "\<And>i j. i < length r \<Longrightarrow> j < length (r ! i) \<Longrightarrow> \<not> r ! i ! j \<Longrightarrow> la ! i ! j = 0"
      by simp_all
    have "shape cl = shape la \<and>
        (\<forall>i < length la. \<forall>j < length (la ! i). la ! i ! j = 0 \<longrightarrow> cl ! i ! j = 0)"
      using cd c unfolding clean_discards_def by blast
    then have sc: "shape cl = shape la"
      and zc: "\<And>i j. i < length la \<Longrightarrow> j < length (la ! i) \<Longrightarrow> la ! i ! j = 0 \<Longrightarrow> cl ! i ! j = 0"
      by simp_all
    have s: "shape r' = shape r" using sl sc by (simp add: r' greater_zero_def)
    have "\<not> r' ! i ! j" if ij: "i < length r" "j < length (r ! i)" "\<not> r ! i ! j"
    proof -
      have 1: "i < length la" "j < length (la ! i)"
        using ij shape_eqD [OF sl] by simp_all
      have 2: "i < length cl" "j < length (cl ! i)"
        using 1 shape_eqD [OF sc] by simp_all
      have "cl ! i ! j = 0" using zc [OF 1] zl [OF ij] by simp
      then show ?thesis using 2 by (simp add: r' greater_zero_def)
    qed
    with s show ?thesis by blast
  qed
  then show "shape r' = shape r"
    and "i < length r \<Longrightarrow> j < length (r ! i) \<Longrightarrow> \<not> r ! i ! j \<Longrightarrow> \<not> r' ! i ! j"
    by blast+
qed

subsection \<open>The sample external functions\<close>

lemma plain_shape_preserving: "shape_preserving plain_collab"
  by (auto simp: shape_preserving_def plain_collab_def)

lemma plain_label_background: "label_background plain_collab"
  by (auto simp: label_background_def plain_collab_def)

lemma plain_clean_discards: "clean_discards plain_collab"
  by (auto simp: clean_discards_def plain_collab_def)

subsection \<open>The smoothing step and the view of the image\<close>

lemma maximum_ge: "r \<in> set (maximum g c) \<Longrightarrow> d \<in> set r \<Longrightarrow> c \<le> d"
  by (auto simp: maximum_def)

lemma nth_maximum:
  "i < length g \<Longrightarrow> j < length (g ! i) \<Longrightarrow> maximum g c ! i ! j = max (g ! i ! j) c"
  by (simp add: maximum_def)

lemma shape_maximum [simp]: "shape (maximum g c) = shape g"
  by (simp add: maximum_def)

lemma smooth_values_InrD:
  assumes "smooth_values C sm pm img = Inr vals"
  shows "\<exists>prod g1 g2. multiply_mask img pm = Inr prod \<and> nd_gaussian_filter C prod sm = Inr g1
           \<and> nd_gaussian_filter C (astype_f pm) sm = Inr g2
           \<and> smooth_divisor C sm pm = Inr (maximum g2 (1 / 2 ^ 10))
           \<and> divide_inplace g1 (maximum g2 (1 / 2 ^ 10)) = Inr vals"
proof -
  from assms obtain prod where p: "multiply_mask img pm = Inr prod"
    and 1: "bindE (nd_gaussian_filter C prod sm) (\<lambda>smooth_img.
              bindE (smooth_divisor C sm pm) (\<lambda>d. divide_inplace smooth_img d)) = Inr vals"
    unfolding smooth_values_def by (cases "multiply_mask img pm") simp_all
  from 1 obtain g1 where g1: "nd_gaussian_filter C prod sm = Inr g1"
    and 2: "bindE (smooth_divisor C sm pm) (\<lambda>d. divide_inplace g1 d) = Inr vals"
    by (cases "nd_gaussian_filter C prod sm") simp_all
  from 2 obtain d where d: "smooth_divisor C sm pm = Inr d" and 3: "divide_inplace g1 d = Inr vals"
    by (cases "smooth_divisor C sm pm") simp_all
  from d obtain g2 where g2: "nd_gaussian_filter C (astype_f pm) sm = Inr g2"
    and d': "d = maximum g2 (1 / 2 ^ 10)"
    unfolding smooth_divisor_def by (cases "nd_gaussian_filter C (astype_f pm) sm") auto
  from p g1 g2 d 3 d' show ?thesis by blast
qed

lemma smooth_step_InrD:
  assumes "sm \<noteq> 0" "smooth_step C sm bb pm buf = Inr buf'"
  shows "\<exists>vals. smooth_values C sm pm (getitem_box buf bb) = Inr vals
           \<and> setitem_mask_view buf bb pm vals = Inr buf'"
  using assms unfolding smooth_step_def
  by (cases "smooth_values C sm pm (getitem_box buf bb)") simp_all

lemma view_index:
  assumes "shape (getitem_box buf ((r0, r1), (c0, c1))) = shape pm"
    and "i < length pm" "j < length (pm ! i)"
  shows "r0 + i < r1" "r0 + i < length buf" "c0 + j < c1" "c0 + j < length (buf ! (r0 + i))"
    and "getitem_box buf ((r0, r1), (c0, c1)) ! i ! j = buf ! (r0 + i) ! (c0 + j)"
proof -
  let ?c = "getitem_box buf ((r0, r1), (c0, c1))"
  have l: "length ?c = length pm" using assms(1) by (rule shape_eqD)
  then have "i < min (r1 - r0) (length buf - r0)"
    using assms(2) by (simp add: length_getitem_box)
  then show r: "r0 + i < r1" "r0 + i < length buf" by linarith+
  then have row: "?c ! i = getitem_slice (buf ! (r0 + i)) (c0, c1)"
    by (intro nth_getitem_box) linarith+
  have "length (?c ! i) = length (pm ! i)"
    using shape_eqD(2) [OF assms(1)] assms(2) l by simp
  then have "j < min (c1 - c0) (length (buf ! (r0 + i)) - c0)"
    using assms(3) by (simp add: row length_getitem_slice)
  then show c: "c0 + j < c1" "c0 + j < length (buf ! (r0 + i))" by linarith+
  then show "?c ! i ! j = buf ! (r0 + i) ! (c0 + j)"
    by (simp add: row nth_getitem_slice)
qed

lemma setitem_mask_view_Inr:
  assumes "setitem_mask_view buf bb m vals = Inr buf'"
  shows "shape (getitem_box buf bb) = shape m" and "shape vals = shape m"
    and "shape buf' = shape buf"
    and "i < length buf \<Longrightarrow> j < length (buf ! i) \<Longrightarrow>
         buf' ! i ! j =
           (if in_slice (fst bb) i \<and> in_slice (snd bb) j
               \<and> m ! (i - fst (fst bb)) ! (j - fst (snd bb))
            then vals ! (i - fst (fst bb)) ! (j - fst (snd bb)) else buf ! i ! j)"
proof -
  show s: "shape (getitem_box buf bb) = shape m" and v: "shape vals = shape m"
    using assms by (simp_all add: setitem_mask_view_def split: if_splits)
  then have b: "buf' = map (\<lambda>i. map (\<lambda>j.
               if in_slice (fst bb) i \<and> in_slice (snd bb) j
                  \<and> m ! (i - fst (fst bb)) ! (j - fst (snd bb))
               then vals ! (i - fst (fst bb)) ! (j - fst (snd bb))
               else buf ! i ! j) [0..<length (buf ! i)]) [0..<length buf]"
    using assms by (simp add: setitem_mask_view_def)
  show "shape buf' = shape buf"
    unfolding b shape_def by (rule nth_equalityI) simp_all
  assume "i < length buf" "j < length (buf ! i)"
  then show "buf' ! i ! j =
           (if in_slice (fst bb) i \<and> in_slice (snd bb) j
               \<and> m ! (i - fst (fst bb)) ! (j - fst (snd bb))
            then vals ! (i - fst (fst bb)) ! (j - fst (snd bb)) else buf ! i ! j)"
    unfolding b by simp
qed

lemma shape_getitem_box:
  "shape (getitem_box a b) =
     map (\<lambda>n. min (snd (snd b) - fst (snd b)) (n - fst (snd b))) (getitem_slice (shape a) (fst b))"
  by (simp add: shape_def getitem_box_def getitem_slice_def take_map drop_map comp_def
        min.commute)

lemma shape_getitem_box_cong:
  "shape a = shape b \<Longrightarrow> shape (getitem_box a bb) = shape (getitem_box b bb)"
  by (simp add: shape_getitem_box)

lemma smooth_step_pixels:
  assumes "sm \<noteq> 0" and "smooth_step C sm bb pm image_buf = Inr buf'"
  shows "\<exists>prod g1 g2.
     multiply_mask (getitem_box image_buf bb) pm = Inr prod \<and>
     nd_gaussian_filter C prod sm = Inr g1 \<and>
     nd_gaussian_filter C (astype_f pm) sm = Inr g2 \<and>
     smooth_divisor C sm pm = Inr (maximum g2 (1 / 2 ^ 10)) \<and>
     (\<forall>i < length pm. \<forall>j < length (pm ! i).
        getitem_box buf' bb ! i ! j =
          (if pm ! i ! j then g1 ! i ! j / max (g2 ! i ! j) (1 / 2 ^ 10)
           else getitem_box image_buf bb ! i ! j))"
proof -
  from smooth_step_InrD [OF assms] obtain vals where
    sv: "smooth_values C sm pm (getitem_box image_buf bb) = Inr vals"
    and sw: "setitem_mask_view image_buf bb pm vals = Inr buf'"
    by blast
  from smooth_values_InrD [OF sv] obtain prod g1 g2 where
    p: "multiply_mask (getitem_box image_buf bb) pm = Inr prod"
    and g1: "nd_gaussian_filter C prod sm = Inr g1"
    and g2: "nd_gaussian_filter C (astype_f pm) sm = Inr g2"
    and d: "smooth_divisor C sm pm = Inr (maximum g2 (1 / 2 ^ 10))"
    and q: "divide_inplace g1 (maximum g2 (1 / 2 ^ 10)) = Inr vals"
    by blast
  obtain r0 r1 c0 c1 where bb: "bb = ((r0, r1), (c0, c1))"
    by (cases bb) auto
  have s: "shape (getitem_box image_buf bb) = shape pm" and sv': "shape vals = shape pm"
    and sb: "shape buf' = shape image_buf"
    using setitem_mask_view_Inr [OF sw] by simp_all
  have s': "shape (getitem_box buf' bb) = shape pm"
    using shape_getitem_box_cong [OF sb, of bb] s by simp
  have sq: "shape g1 = shape (maximum g2 (1 / 2 ^ 10))" "shape vals = shape g1"
    using zip2d_Inr(1,2) [OF q [unfolded divide_inplace_def]] by simp_all
  have px: "getitem_box buf' bb ! i ! j =
          (if pm ! i ! j then g1 ! i ! j / max (g2 ! i ! j) (1 / 2 ^ 10)
           else getitem_box image_buf bb ! i ! j)"
    if ij: "i < length pm" "j < length (pm ! i)" for i j
  proof -
    note v = view_index [OF s [unfolded bb] ij]
    note v' = view_index [OF s' [unfolded bb] ij]
    have i1: "i < length vals" "j < length (vals ! i)"
      using shape_eqD [OF sv'] ij by simp_all
    have i2: "i < length g1" "j < length (g1 ! i)"
      using shape_eqD [OF sq(2)] i1 by simp_all
    have i3: "i < length g2" "j < length (g2 ! i)"
      using shape_eqD [OF sq(1)] i2 by (simp_all add: maximum_def)
    have "vals ! i ! j = g1 ! i ! j / maximum g2 (1 / 2 ^ 10) ! i ! j"
      using zip2d_Inr(3) [OF q [unfolded divide_inplace_def] i2] .
    then have val: "vals ! i ! j = g1 ! i ! j / max (g2 ! i ! j) (1 / 2 ^ 10)"
      using i3 by (simp add: nth_maximum)
    have "buf' ! (r0 + i) ! (c0 + j) =
        (if pm ! i ! j then vals ! i ! j else image_buf ! (r0 + i) ! (c0 + j))"
      using setitem_mask_view_Inr(4) [OF sw v(2) v(4)] v(1) v(3)
      by (simp add: bb in_slice_def)
    then show ?thesis
      unfolding bb v(5) v'(5) val by simp
  qed
  from p g1 g2 d px show ?thesis by blast
qed

lemma maximum_positive:
  "\<forall>r \<in> set (maximum g (1 / 2 ^ 10)). \<forall>d \<in> set r. 1 / 2 ^ 10 \<le> d \<and> 0 < d"
proof (intro ballI)
  fix r d assume "r \<in> set (maximum g (1 / 2 ^ 10))" "d \<in> set r"
  then have "(1 :: real) / 2 ^ 10 \<le> d" by (rule maximum_ge)
  moreover have "(0 :: real) < 1 / 2 ^ 10" by simp
  ultimately show "1 / 2 ^ 10 \<le> d \<and> 0 < d" by linarith
qed

lemma demo_smooth_step:
  "smooth_step plain_collab 1 ((1, 3), (0, 2)) [[False, True], [True, True]]
     [[1, 2, 3], [4, 50, 6], [70, 80, 9]] = Inr [[1, 2, 3], [4, 50, 6], [70, 80, 9]]"
  by code_simp

subsection \<open>Runs that return, and what they leave of the image\<close>

lemma smooth_step_returns:
  assumes t: "always_return C" and sp: "shape_preserving C"
    and s: "shape (getitem_box buf bb) = shape pm"
  shows "\<exists>buf'. smooth_step C sm bb pm buf = Inr buf' \<and> shape buf' = shape buf"
proof (cases "sm = 0")
  case True
  then show ?thesis by (simp add: smooth_step_def)
next
  case False
  let ?img = "getitem_box buf bb"
  let ?prod = "map2 (\<lambda>r s. map2 (\<lambda>v b. if b then v else 0) r s) ?img pm"
  have p: "multiply_mask ?img pm = Inr ?prod"
    unfolding multiply_mask_def using s by (rule zip2d_same_shape)
  have sprod: "shape ?prod = shape pm" using shape_map2 [OF s] s by simp
  from t obtain g1 where g1: "nd_gaussian_filter C ?prod sm = Inr g1"
    unfolding always_return_def by blast
  from t obtain g2 where g2: "nd_gaussian_filter C (astype_f pm) sm = Inr g2"
    unfolding always_return_def by blast
  have gs: "\<forall>a s b. nd_gaussian_filter C a s = Inr b \<longrightarrow> shape b = shape a"
    using sp by (simp add: shape_preserving_def)
  have s1: "shape g1 = shape pm" using gs g1 sprod by fastforce
  have s2: "shape g2 = shape pm" using gs g2 by (fastforce simp: astype_f_def)
  let ?d = "maximum g2 (1 / 2 ^ 10)"
  let ?vals = "map2 (\<lambda>r s. map2 (\<lambda>x y. x / y) r s) g1 ?d"
  have sd: "shape g1 = shape ?d" using s1 s2 by simp
  have q: "divide_inplace g1 ?d = Inr ?vals"
    unfolding divide_inplace_def using sd by (rule zip2d_same_shape)
  have sv: "shape ?vals = shape pm" using shape_map2 [OF sd] s1 by simp
  have "smooth_values C sm pm ?img = Inr ?vals"
    by (simp only: smooth_values_def smooth_divisor_def p g1 g2 q bindE_Inr)
  moreover obtain buf' where w: "setitem_mask_view buf bb pm ?vals = Inr buf'"
    using s sv by (simp add: setitem_mask_view_def)
  ultimately have "smooth_step C sm bb pm buf = Inr buf'"
    using False by (simp add: smooth_step_def)
  moreover have "shape buf' = shape buf" using w by (rule setitem_mask_view_Inr)
  ultimately show ?thesis by blast
qed

lemma binary_step_returns:
  assumes t: "always_return C" and sp: "shape_preserving C"
    and s: "shape img = shape pm"
  shows "\<exists>rmask. binary_step C r pm img = Inr rmask"
proof -
  from t obtain a where a: "remove_background C img r 1 = Inr a"
    unfolding always_return_def by blast
  from t obtain er where er: "nd_binary_erosion C pm r = Inr er"
    unfolding always_return_def by blast
  have "\<forall>a d s b. remove_background C a d s = Inr b \<longrightarrow> shape b = shape a"
    "\<forall>m n b. nd_binary_erosion C m n = Inr b \<longrightarrow> shape b = shape m"
    "\<forall>a b. segment_root C a = Inr b \<longrightarrow> shape b = shape a"
    using sp by (simp_all add: shape_preserving_def)
  note sps = this
  have sa: "shape a = shape pm" using sps(1) a s by fastforce
  have se: "shape er = shape pm" using sps(2) er by fastforce
  let ?b = "map2 (\<lambda>r s. map2 (\<lambda>v b. if b then v else 0) r s) a er"
  have sae: "shape a = shape er" using sa se by simp
  have b: "multiply_mask a er = Inr ?b"
    unfolding multiply_mask_def using sae by (rule zip2d_same_shape)
  have sb: "shape ?b = shape pm" using shape_map2 [OF sae] sa by simp
  from t obtain rm where rm: "segment_root C ?b = Inr rm"
    unfolding always_return_def by blast
  have srm: "shape rm = shape (negate_mask pm)" using sps(3) rm sb by (fastforce simp: negate_mask_def)
  then obtain z where "setitem_mask_zero rm (negate_mask pm) = Inr z"
    by (simp add: setitem_mask_zero_def)
  then have "binary_step C r pm img = Inr z"
    by (simp add: binary_step_def a er b rm)
  then show ?thesis by blast
qed

lemma clean_step_returns:
  assumes t: "always_return C"
  shows "\<exists>r'. clean_step C d r = Inr r'"
proof (cases "0 < d")
  case False
  then show ?thesis by (simp add: clean_step_def)
next
  case True
  from t obtain lab where l: "nd_label C r = Inr lab" unfolding always_return_def by blast
  from t obtain cl where c: "clean_label C (fst lab) d = Inr cl"
    unfolding always_return_def by blast
  show ?thesis using True by (simp add: clean_step_def l c)
qed

lemma segment_image_returns:
  assumes t: "always_return C" and sp: "shape_preserving C"
    and s: "shape image_buf = shape pmask" and ne: "0 < asize pmask"
    and nf: "nan_free pmask"
  shows "\<exists>rm bb buf'. segment_image C p image_buf pmask = Inr ((rm, bb), buf')"
proof -
  from binarize_has_true [OF ne nf] obtain m where
    m: "binarize pmask = Inr m" "shape m = shape pmask" "true_pixels m \<noteq> []" by blast
  let ?bb = "pixel_box (true_pixels m)"
  have fb: "find_bbox m = Inr ?bb" using m(3) by (rule find_bbox_Inr)
  have s1: "shape (getitem_box image_buf ?bb) = shape (getitem_box m ?bb)"
    using s m(2) by (intro shape_getitem_box_cong) simp
  from smooth_step_returns [OF t sp s1] obtain buf' where
    b: "smooth_step C (smooth p) ?bb (getitem_box m ?bb) image_buf = Inr buf'"
    and sb: "shape buf' = shape image_buf" by blast
  have s2: "shape (getitem_box buf' ?bb) = shape (getitem_box m ?bb)"
    using shape_getitem_box_cong [OF sb, of ?bb] s1 by simp
  from binary_step_returns [OF t sp s2] obtain r0 where
    r0: "binary_step C (root_max_radius p) (getitem_box m ?bb) (getitem_box buf' ?bb) = Inr r0"
    by blast
  from clean_step_returns [OF t] obtain r1 where r1: "clean_step C (min_dimension p) r0 = Inr r1"
    by blast
  from segment_image_InrI [OF m(1) fb b r0 r1] show ?thesis by blast
qed

lemma smooth_step_frame:
  assumes "smooth_step C sm bb pm buf = Inr buf'"
  shows "shape buf' = shape buf"
    and "sm = 0 \<Longrightarrow> buf' = buf"
    and "i < length buf \<Longrightarrow> j < length (buf ! i) \<Longrightarrow>
         \<not> (in_slice (fst bb) i \<and> in_slice (snd bb) j
            \<and> pm ! (i - fst (fst bb)) ! (j - fst (snd bb))) \<Longrightarrow>
         buf' ! i ! j = buf ! i ! j"
proof -
  have z: "buf' = buf" if "sm = 0" using assms that by (simp add: smooth_step_def)
  then show "sm = 0 \<Longrightarrow> buf' = buf" .
  have "shape buf' = shape buf \<and>
    (i < length buf \<longrightarrow> j < length (buf ! i) \<longrightarrow>
         \<not> (in_slice (fst bb) i \<and> in_slice (snd bb) j
            \<and> pm ! (i - fst (fst bb)) ! (j - fst (snd bb))) \<longrightarrow>
         buf' ! i ! j = buf ! i ! j)"
  proof (cases "sm = 0")
    case True
    then show ?thesis using z by simp
  next
    case False
    from smooth_step_InrD [OF False assms] obtain vals where
      w: "setitem_mask_view buf bb pm vals = Inr buf'" by blast
    show ?thesis
      using setitem_mask_view_Inr(3) [OF w] setitem_mask_view_Inr(4) [OF w, of i j] by auto
  qed
  then show "shape buf' = shape buf"
    and "i < length buf \<Longrightarrow> j < length (buf ! i) \<Longrightarrow>
         \<not> (in_slice (fst bb) i \<and> in_slice (snd bb) j
            \<and> pm ! (i - fst (fst bb)) ! (j - fst (snd bb))) \<Longrightarrow>
         buf' ! i ! j = buf ! i ! j"
    by blast+
qed

lemma demo_run_zero_blur:
  "segment_image (plain_collab\<lparr>nd_gaussian_filter := (\<lambda>a s. Inr (map (map (\<lambda>v. 0)) a))\<rparr>)
     default_params demo_image demo_pmask =
     Inr ((set_serializer [[False, False], [False, False]] ''PNG'' ''uint8'' 255,
           ((1, 3), (0, 2))), [[1, 2, 3], [4, 0, 6], [0, 0, 9]])"
  by code_simp

subsection \<open>The Gaussian filter\<close>

lemma sum_list_pos:
  fixes f :: "'a \<Rightarrow> real"
  assumes "\<forall>x \<in> set xs. 0 \<le> f x" "y \<in> set xs" "0 < f y"
  shows "0 < sum_list (map f xs)"
  using assms
proof (induction xs)
  case Nil
  then show ?case by simp
next
  case (Cons x xs)
  have nn: "0 \<le> sum_list (map f xs)"
    using Cons.prems(1) by (intro sum_list_nonneg) auto
  show ?case
  proof (cases "y = x")
    case True
    then show ?thesis using nn Cons.prems(3) by simp
  next
    case False
    then have "0 < sum_list (map f xs)" using Cons by auto
    moreover have "0 \<le> f x" using Cons.prems(1) by simp
    ultimately show ?thesis by simp
  qed
qed

lemma kernel_weights_positive:
  assumes "kw \<in> set (gaussian_kernel1d sigma)"
  shows "0 < snd kw"
proof -
  define lw where "lw = \<lfloor>4 * sigma + 1 / 2\<rfloor>"
  define phi where "phi = (\<lambda>k :: int. exp (- (1 / 2) / (sigma * sigma) * of_int (k * k)))"
  define s where "s = sum_list (map phi [- lw..lw])"
  have K: "gaussian_kernel1d sigma = map (\<lambda>k. (k, phi k / s)) [- lw..lw]"
    by (simp add: gaussian_kernel1d_def Let_def lw_def phi_def s_def)
  from assms obtain k where k: "k \<in> set [- lw..lw]" "kw = (k, phi k / s)"
    unfolding K by auto
  have p: "0 < phi j" for j by (simp add: phi_def)
  have "0 < s"
    unfolding s_def using k(1) p by (intro sum_list_pos [of _ _ k]) (auto intro: less_imp_le)
  then show ?thesis using p [of k] by (simp add: k(2))
qed

lemma kernel_offsets:
  "fst ` set (gaussian_kernel1d sigma) = {- \<lfloor>4 * sigma + 1 / 2\<rfloor>..\<lfloor>4 * sigma + 1 / 2\<rfloor>}"
proof -
  define lw where "lw = \<lfloor>4 * sigma + 1 / 2\<rfloor>"
  define phi where "phi = (\<lambda>k :: int. exp (- (1 / 2) / (sigma * sigma) * of_int (k * k)))"
  define s where "s = sum_list (map phi [- lw..lw])"
  have K: "gaussian_kernel1d sigma = map (\<lambda>k. (k, phi k / s)) [- lw..lw]"
    by (simp add: gaussian_kernel1d_def Let_def lw_def phi_def s_def)
  have "fst ` set (gaussian_kernel1d sigma) = set [- lw..lw]"
    unfolding K by (simp add: image_image del: set_upto)
  then show ?thesis unfolding lw_def by simp
qed

lemma kernel_offset_one: "\<exists>w. (1, w) \<in> set (gaussian_kernel1d 1)"
proof -
  have "\<lfloor>4 * (1 :: real) + 1 / 2\<rfloor> = 4" by linarith
  then have "fst ` set (gaussian_kernel1d 1) = {- 4..4}"
    using kernel_offsets [of 1] by simp
  then have "1 \<in> fst ` set (gaussian_kernel1d 1)" by simp
  then show ?thesis by force
qed

lemma reflect_index_less: "0 < n \<Longrightarrow> reflect_index n i < n"
proof -
  assume n: "0 < n"
  define m where "m = i mod (2 * int n)"
  have "0 \<le> m" "m < 2 * int n" using n by (simp_all add: m_def)
  then show ?thesis
    unfolding reflect_index_def m_def [symmetric] Let_def by auto
qed

lemma reflect_index_2_1: "reflect_index 2 1 = 1"
  by (simp add: reflect_index_def)

lemma shape_correlate_axis0 [simp]: "shape (correlate_axis0 ker a) = shape a"
  unfolding shape_def correlate_axis0_def by (rule nth_equalityI) simp_all

lemma shape_correlate_axis1 [simp]: "shape (correlate_axis1 ker a) = shape a"
  by (simp add: shape_def correlate_axis1_def comp_def)

lemma shape_gaussian_filter: "gaussian_filter a s = Inr b \<Longrightarrow> shape b = shape a"
  by (auto simp: gaussian_filter_def)

lemma gaussian_always_return: "always_return gaussian_collab"
  by (simp add: always_return_def gaussian_collab_def plain_collab_def gaussian_filter_def)

lemma gaussian_shape_preserving: "shape_preserving gaussian_collab"
  using plain_shape_preserving
  by (simp add: shape_preserving_def gaussian_collab_def shape_gaussian_filter)

lemma gaussian_blur_corner_positive:
  assumes "gaussian_filter [[0, 1]] 1 = Inr g"
  shows "0 < g ! 0 ! 0"
proof -
  let ?K = "gaussian_kernel1d 1"
  define c0 where "c0 = sum_list (map (\<lambda>kw. snd kw * [[0, 1 :: real]] ! reflect_index 1 (int 0 + fst kw) ! 0) ?K)"
  define c1 where "c1 = sum_list (map (\<lambda>kw. snd kw * [[0, 1 :: real]] ! reflect_index 1 (int 0 + fst kw) ! 1) ?K)"
  have r1: "reflect_index (Suc 0) i = 0" for i using reflect_index_less [of 1 i] by simp
  have r2: "reflect_index (Suc (Suc 0)) = reflect_index 2" by (simp add: numeral_2_eq_2)
  obtain w where w: "(1, w) \<in> set ?K" using kernel_offset_one by blast
  have wpos: "0 < w" using kernel_weights_positive [OF w] by simp
  have "c0 = sum_list (map (\<lambda>kw. 0) ?K)" by (simp add: c0_def r1)
  then have c0: "c0 = 0" by simp
  have "c1 = sum_list (map (\<lambda>kw. snd kw) ?K)" by (simp add: c1_def r1)
  moreover have "0 < sum_list (map (\<lambda>kw. snd kw) ?K)"
  proof (rule sum_list_pos [of _ _ "(1, w)"])
    show "\<forall>x \<in> set ?K. 0 \<le> snd x" using kernel_weights_positive by (auto intro: less_imp_le)
    show "(1, w) \<in> set ?K" by (rule w)
    show "0 < snd (1 :: int, w)" using wpos by simp
  qed
  ultimately have c1: "0 < c1" by simp
  have a0: "correlate_axis0 ?K [[0, 1]] = [[c0, c1]]"
    by (simp add: correlate_axis0_def c0_def c1_def)
  have "(0 :: real) < 1" "(1 :: real) / 10 ^ 15 < 1" by simp_all
  with assms have g: "g = correlate_axis1 ?K [[c0, c1]]"
    by (simp add: gaussian_filter_def a0)
  have g00: "g ! 0 ! 0 = sum_list (map (\<lambda>kw. snd kw * [c0, c1] ! reflect_index 2 (int 0 + fst kw)) ?K)"
    by (simp add: g correlate_axis1_def r2)
  have el: "0 \<le> [c0, c1] ! reflect_index 2 i" for i
  proof -
    have "reflect_index 2 i < 2" by (rule reflect_index_less) simp
    then have "reflect_index 2 i = 0 \<or> reflect_index 2 i = 1" by linarith
    then show ?thesis using c0 c1 by auto
  qed
  show ?thesis
    unfolding g00
  proof (rule sum_list_pos [of _ _ "(1, w)"])
    show "\<forall>x \<in> set ?K. 0 \<le> snd x * [c0, c1] ! reflect_index 2 (int 0 + fst x)"
    proof
      fix x assume "x \<in> set ?K"
      then have "0 \<le> snd x" using kernel_weights_positive [of x 1] by simp
      then show "0 \<le> snd x * [c0, c1] ! reflect_index 2 (int 0 + fst x)"
        using el by (intro mult_nonneg_nonneg)
    qed
    show "(1, w) \<in> set ?K" by (rule w)
    show "0 < snd (1 :: int, w) * [c0, c1] ! reflect_index 2 (int 0 + fst (1 :: int, w))"
      using wpos c1 by (simp add: reflect_index_2_1)
  qed
qed

subsection \<open>The scale of detect_leaves\<close>

lemma detect_leaves_InrD:
  assumes "detect_leaves C rmask image_buf bb n r h srt = Inr sm"
  shows "n \<noteq> 0" and "serializer sm = \<lparr>pil_format = ''PNG'', ser_dtype = ''uint8'', ser_scale = 255 div n\<rparr>"
proof -
  from assms obtain seed where
    1: "bindE (py2_div 255 n) (\<lambda>scale. Inr (set_serializer seed ''PNG'' ''uint8'' scale)) = Inr sm"
    unfolding detect_leaves_def
    by (cases "seed_detect_leaves C rmask (getitem_box image_buf bb) n r h srt") simp_all
  show n: "n \<noteq> 0"
  proof
    assume "n = 0"
    with 1 show False by (simp add: py2_div_def)
  qed
  with 1 have "sm = set_serializer seed ''PNG'' ''uint8'' (255 div n)"
    by (simp add: py2_div_def)
  then show "serializer sm = \<lparr>pil_format = ''PNG'', ser_dtype = ''uint8'', ser_scale = 255 div n\<rparr>"
    by (simp add: set_serializer_def)
qed

lemma scaled_label_bounds:
  fixes k n :: int
  assumes "0 < n" "0 \<le> k" "k \<le> n"
  shows "0 \<le> k * (255 div n)" and "k * (255 div n) < 256"
proof -
  have d: "0 \<le> 255 div n" using assms(1) by (simp add: pos_imp_zdiv_nonneg_iff)
  show "0 \<le> k * (255 div n)" using assms(2) d by simp
  have "k * (255 div n) \<le> n * (255 div n)" using assms(3) d by (rule mult_right_mono)
  also have "\<dots> \<le> 255"
  proof -
    have "n * (255 div n) + 255 mod n = 255" by (rule mult_div_mod_eq)
    moreover have "0 \<le> 255 mod n" using assms(1) by simp
    ultimately show ?thesis by linarith
  qed
  finally show "k * (255 div n) < 256" by simp
qed

lemma uint_stored_intensity:
  assumes "0 \<le> v * ser_scale s" "v * ser_scale s < 256"
  shows "uint (stored_intensity s v) = v * ser_scale s"
proof -
  have "uint (word_of_int (v * ser_scale s) :: 8 word) = (v * ser_scale s) mod 2 ^ 8"
    using uint_word_of_int [of "v * ser_scale s", where 'a = 8] by simp
  also have "\<dots> = v * ser_scale s" using assms by simp
  finally show ?thesis by (simp only: stored_intensity_def)
qed

lemma demo_detect_leaves:
  "detect_leaves plain_collab [[False, True], [True, True]] demo_image ((1, 3), (0, 2)) 2 3
     (0, 1 / 5) True
   = Inr (set_serializer [[0, 0], [0, 0]] ''PNG'' ''uint8'' 127)"
  by code_simp

section \<open>The bounding box\<close>

text \<open>
  Claim C5. The bounding box that \<open>segment_image\<close> returns is the minimal axis-aligned
  rectangle enclosing all true pixels of the binarized plate mask: it encloses them, and
  it lies within every box that encloses them. The binarized mask cropped to the box has
  a true pixel in its first and last row and in its first and last column. A boolean
  mask has one label, so the box is that of all true pixels, which are the region when
  the true pixels form a single connected region.
\<close>

theorem bbox_minimal_rectangle:
  assumes "segment_image C p image_buf pmask = Inr ((rm, bb), buf')"
  shows "\<exists>m. binarize pmask = Inr m \<and> minimal_rectangle bb m
            \<and> border_true (getitem_box m bb)"
proof -
  from segment_image_InrD [OF assms] obtain m where
    m: "binarize pmask = Inr m" "find_bbox m = Inr bb"
    by blast
  from m(2) have "true_pixels m \<noteq> []" "bb = pixel_box (true_pixels m)"
    by (simp_all add: find_bbox_Inr_iff)
  then have "minimal_rectangle bb m" "border_true (getitem_box m bb)"
    by (simp_all add: pixel_box_minimal pixel_box_border)
  with m(1) show ?thesis by blast
qed

theorem bbox_minimal_rectangle_witness:
  "\<exists>m. binarize demo_pmask = Inr m \<and> minimal_rectangle ((1, 3), (0, 2)) m
        \<and> border_true (getitem_box m ((1, 3), (0, 2)))"
  using bbox_minimal_rectangle [OF demo_run] .

text \<open>
  Claim C10, as the code has it. For a plate mask with at least one element and no NaN,
  some pixel attains the maximum: the binarized mask has a true pixel,
  \<open>nd_find_objects\<close> returns a list of one box and taking its first entry succeeds. A
  boolean mask of \<open>h\<close> rows and \<open>w\<close> columns that is false everywhere binarizes to the
  mask that is true everywhere, and its box is the whole array.
\<close>

theorem binarized_mask_never_empty:
  "(0 < asize pmask \<and> nan_free pmask \<longrightarrow>
      (\<exists>m bb. binarize pmask = Inr m \<and> true_pixels m \<noteq> [] \<and> nd_find_objects m = Inr [bb]
         \<and> find_bbox m = Inr bb)) \<and>
   (0 < h \<and> 0 < w \<longrightarrow>
      binarize (replicate h (replicate w (Val False)))
        = Inr (replicate h (replicate w True)) \<and>
      find_bbox (replicate h (replicate w True)) = Inr ((0, h), (0, w)))"
proof (intro conjI impI)
  assume "0 < asize pmask \<and> nan_free pmask"
  then have "0 < asize pmask" "nan_free pmask" by simp_all
  from binarize_has_true [OF this] obtain m where
    m: "binarize pmask = Inr m" "true_pixels m \<noteq> []" by blast
  have "find_bbox m = Inr (pixel_box (true_pixels m))" using m(2) by (rule find_bbox_Inr)
  moreover have "nd_find_objects m = Inr [pixel_box (true_pixels m)]"
    using m(2) by (rule find_objects_singleton)
  ultimately show "\<exists>m bb. binarize pmask = Inr m \<and> true_pixels m \<noteq> []
      \<and> nd_find_objects m = Inr [bb] \<and> find_bbox m = Inr bb" using m by blast
next
  assume hw: "0 < h \<and> 0 < w"
  then show "binarize (replicate h (replicate w (Val False)))
      = Inr (replicate h (replicate w True))"
    by (simp add: binarize_all_false)
  have "set (true_pixels (replicate h (replicate w True))) \<noteq> {}"
    unfolding true_pixels_all_true using hw by simp
  then have "true_pixels (replicate h (replicate w True)) \<noteq> []" by auto
  then show "find_bbox (replicate h (replicate w True)) = Inr ((0, h), (0, w))"
    using hw by (simp add: find_bbox_Inr pixel_box_all_true)
qed

theorem binarized_mask_never_empty_witness:
  "(\<exists>m bb. binarize demo_pmask = Inr m \<and> true_pixels m \<noteq> [] \<and> nd_find_objects m = Inr [bb]
       \<and> find_bbox m = Inr bb) \<and>
   binarize (replicate 2 (replicate 3 (Val False))) = Inr (replicate 2 (replicate 3 True)) \<and>
   find_bbox (replicate 2 (replicate 3 True)) = Inr ((0, 2), (0, 3))"
proof -
  have "0 < asize demo_pmask \<and> nan_free demo_pmask" by code_simp
  then show ?thesis
    using binarized_mask_never_empty [of demo_pmask 2 3] by simp
qed

text \<open>
  The claim as it is stated fails for a plate mask of floats that holds NaN. The maximum
  of \<open>[[NaN, 1]]\<close> is NaN, no element is equal to it, the binarized mask is false
  everywhere, \<open>nd_find_objects\<close> returns the empty list and \<open>segment_image\<close> fails with
  the IndexError of \<^verbatim>\<open>[0]\<close>.
\<close>

theorem binarized_mask_nan_counterexample:
  "0 < asize [[NaN, Val (1 :: real)]] \<and>
   binarize [[NaN, Val (1 :: real)]] = Inr [[False, False]] \<and>
   true_pixels [[False, False]] = [] \<and>
   nd_find_objects [[False, False]] = Inr [] \<and>
   segment_image plain_collab default_params [[0, 0]] [[NaN, Val (1 :: real)]]
     = Inl IndexError"
  by code_simp

text \<open>
  Claim C2, as the code has it. When the binarized plate mask has no true pixel, which
  is the case exactly when the plate mask holds NaN, \<open>segment_image\<close> fails with the
  IndexError that \<^verbatim>\<open>_nd.find_objects(pmask)[0]\<close> raises on the empty list. A plate mask
  without elements fails earlier, with the ValueError of \<^verbatim>\<open>pmask.max()\<close>. When the
  binarized mask has a true pixel the bounding-box step succeeds. The step never raises
  ShapeError.
\<close>

theorem no_true_pixel_raises_index_error:
  "(binarize pmask = Inr m \<and> true_pixels m = [] \<longrightarrow>
      segment_image C p image_buf pmask = Inl IndexError) \<and>
   (binarize pmask = Inr m \<longrightarrow> (true_pixels m = [] \<longleftrightarrow> \<not> nan_free pmask)) \<and>
   (asize pmask = 0 \<longrightarrow> segment_image C p image_buf pmask = Inl ValueError) \<and>
   (binarize pmask = Inr m \<and> true_pixels m \<noteq> [] \<longrightarrow> (\<exists>bb. find_bbox m = Inr bb)) \<and>
   find_bbox m \<noteq> Inl ShapeError"
proof (intro conjI impI)
  assume a: "binarize pmask = Inr m \<and> true_pixels m = []"
  then have "0 < asize m" using binarize_InrD(1,2) [of pmask m] by simp
  then have "find_bbox m = Inl IndexError" using a by (simp add: find_bbox_no_true)
  then show "segment_image C p image_buf pmask = Inl IndexError"
    using a by (simp add: segment_image_def)
next
  assume "binarize pmask = Inr m"
  then show "true_pixels m = [] \<longleftrightarrow> \<not> nan_free pmask" by (rule binarize_InrD)
next
  assume "asize pmask = 0"
  then show "segment_image C p image_buf pmask = Inl ValueError"
    by (simp add: segment_image_def binarize_empty)
next
  assume "binarize pmask = Inr m \<and> true_pixels m \<noteq> []"
  then show "\<exists>bb. find_bbox m = Inr bb" using find_bbox_Inr by blast
next
  show "find_bbox m \<noteq> Inl ShapeError"
    using find_bbox_cases [of m] by auto
qed

lemma demo_binarize_nan:
  "binarize [[Val 2, NaN], [Val 0, Val (1 :: real)]] = Inr [[False, False], [False, False]]"
  by code_simp

theorem no_true_pixel_raises_index_error_witness:
  "segment_image plain_collab default_params [[1, 2], [3, 4]]
     [[Val 2, NaN], [Val 0, Val (1 :: real)]] = Inl IndexError \<and>
   \<not> nan_free [[Val 2, NaN], [Val 0, Val (1 :: real)]] \<and>
   segment_image plain_collab default_params [[]] ([[]] :: int elem ndarray)
     = Inl ValueError \<and>
   (\<exists>bb. find_bbox [[False, False, False], [False, True, False], [True, True, False]]
      = Inr bb)"
proof -
  have a: "true_pixels [[False, False], [False, False]] = []" by code_simp
  have b: "asize ([[]] :: int elem ndarray) = 0" by code_simp
  have c: "true_pixels [[False, False, False], [False, True, False], [True, True, False]]
      \<noteq> []" by code_simp
  show ?thesis
    using no_true_pixel_raises_index_error [of "[[Val 2, NaN], [Val 0, Val (1 :: real)]]"
        "[[False, False], [False, False]]" plain_collab default_params "[[1, 2], [3, 4]]"]
      no_true_pixel_raises_index_error [of "[[]] :: int elem ndarray"
        "[[False, False], [False, False]]" plain_collab default_params "[[]]"]
      no_true_pixel_raises_index_error [of demo_pmask
        "[[False, False, False], [False, True, False], [True, True, False]]"
        plain_collab default_params "[[]]"]
      a b c demo_binarize demo_binarize_nan
    by simp
qed

text \<open>
  The claim as it is stated fails: the plate mask \<open>[[2, NaN], [0, 1]]\<close> has a binarized
  mask, that mask has no true pixel, and the error is IndexError, not ShapeError.
\<close>

theorem no_true_pixel_shape_error_counterexample:
  "binarize [[Val 2, NaN], [Val 0, Val (1 :: real)]] = Inr [[False, False], [False, False]] \<and>
   true_pixels [[False, False], [False, False]] = [] \<and>
   segment_image plain_collab default_params [[1, 2], [3, 4]]
     [[Val 2, NaN], [Val 0, Val (1 :: real)]] = Inl IndexError \<and>
   segment_image plain_collab default_params [[1, 2], [3, 4]]
     [[Val 2, NaN], [Val 0, Val (1 :: real)]] \<noteq> Inl ShapeError"
  by code_simp

section \<open>The optional steps\<close>

text \<open>
  Claim C7. With \<open>smooth = 0\<close> the smoothing step leaves the caller's array as it is and
  calls nothing. The run is then the run of the remaining steps on the bounding-box crop
  of the input image: that crop is the array handed to \<open>remove_background\<close>, the first
  call of \<open>binary_step\<close>. The result does not depend on the Gaussian filter.
\<close>

theorem smooth_zero_skips_smoothing:
  "smooth_step C 0 bb pm image_buf = Inr image_buf \<and>
   segment_image C (p\<lparr>smooth := 0\<rparr>) image_buf pmask =
     bindE (binarize pmask) (\<lambda>m.
     bindE (find_bbox m) (\<lambda>bbox.
     bindE (binary_step C (root_max_radius p) (getitem_box m bbox)
              (getitem_box image_buf bbox)) (\<lambda>rmask.
     bindE (clean_step C (min_dimension p) rmask) (\<lambda>rmask.
     Inr ((set_serializer rmask ''PNG'' ''uint8'' 255, bbox), image_buf))))) \<and>
   segment_image (C\<lparr>nd_gaussian_filter := g\<rparr>) (p\<lparr>smooth := 0\<rparr>) image_buf pmask =
     segment_image C (p\<lparr>smooth := 0\<rparr>) image_buf pmask"
  by (simp add: segment_image_def smooth_step_def)

theorem smooth_zero_skips_smoothing_witness:
  "smooth_step gaussian_collab 0 ((1, 3), (0, 2)) [[False, True], [True, True]] demo_image
     = Inr demo_image \<and>
   segment_image gaussian_collab (default_params\<lparr>smooth := 0\<rparr>) demo_image demo_pmask =
     Inr ((set_serializer [[False, True], [True, True]] ''PNG'' ''uint8'' 255,
           ((1, 3), (0, 2))), demo_image)"
proof -
  have "segment_image plain_collab (default_params\<lparr>smooth := 0\<rparr>) demo_image demo_pmask =
     Inr ((set_serializer [[False, True], [True, True]] ''PNG'' ''uint8'' 255,
           ((1, 3), (0, 2))), demo_image)"
    by code_simp
  then show ?thesis
    using smooth_zero_skips_smoothing [of plain_collab "((1, 3), (0, 2))"
        "[[False, True], [True, True]]" demo_image default_params demo_pmask gaussian_filter]
      smooth_zero_skips_smoothing [of gaussian_collab "((1, 3), (0, 2))"
        "[[False, True], [True, True]]" demo_image default_params demo_pmask gaussian_filter]
    by (simp add: gaussian_collab_def)
qed

text \<open>
  Claim C8. With \<open>min_dimension = 0\<close>, and with any \<open>min_dimension\<close> that is not above 0,
  the cleaning step returns the mask it is given and calls neither \<open>label\<close> nor
  \<open>clean_label\<close>; the mask that \<open>segment_image\<close> returns is the one that the
  binarization step produced. With \<open>min_dimension\<close> above 0 the step labels and cleans.
\<close>

theorem min_dimension_zero_skips_cleaning:
  "clean_step C 0 rmask = Inr rmask \<and>
   (d \<le> 0 \<longrightarrow> clean_step C d rmask = Inr rmask) \<and>
   (0 < d \<longrightarrow> clean_step C d rmask =
      bindE (nd_label C rmask) (\<lambda>lab.
      bindE (clean_label C (fst lab) d) (\<lambda>cluster. Inr (greater_zero cluster)))) \<and>
   segment_image C (p\<lparr>min_dimension := 0\<rparr>) image_buf pmask =
     bindE (binarize pmask) (\<lambda>m.
     bindE (find_bbox m) (\<lambda>bbox.
     bindE (smooth_step C (smooth p) bbox (getitem_box m bbox) image_buf) (\<lambda>image_buf.
     bindE (binary_step C (root_max_radius p) (getitem_box m bbox)
              (getitem_box image_buf bbox)) (\<lambda>rmask.
     Inr ((set_serializer rmask ''PNG'' ''uint8'' 255, bbox), image_buf)))))"
proof -
  have "bindE (binary_step C r pm img) (\<lambda>rmask. bindE (Inr rmask) f) = bindE (binary_step C r pm img) f"
    for r pm img and f :: "bool ndarray \<Rightarrow> error + ((bool Image \<times> bbox) \<times> real ndarray)"
    by (cases "binary_step C r pm img") simp_all
  then show ?thesis
    by (simp add: segment_image_def clean_step_def)
qed

text \<open>
  A cleaner that discards every label: with it in place of the cleaner that keeps every
  label, a cleaning step with \<open>min_dimension\<close> above 0 returns the mask that is false
  everywhere, and a run with
  \<open>min_dimension = 0\<close> returns the binarized root mask.
\<close>

theorem min_dimension_zero_skips_cleaning_witness:
  "clean_step (plain_collab\<lparr>clean_label := (\<lambda>l d. Inr (map (map (\<lambda>v. 0)) l))\<rparr>) 0
       [[False, True], [True, True]] = Inr [[False, True], [True, True]] \<and>
   clean_step (plain_collab\<lparr>clean_label := (\<lambda>l d. Inr (map (map (\<lambda>v. 0)) l))\<rparr>) 50
       [[False, True], [True, True]] = Inr [[False, False], [False, False]] \<and>
   segment_image (plain_collab\<lparr>clean_label := (\<lambda>l d. Inr (map (map (\<lambda>v. 0)) l))\<rparr>)
       (default_params\<lparr>min_dimension := 0\<rparr>) demo_image demo_pmask =
     Inr ((set_serializer [[False, True], [True, True]] ''PNG'' ''uint8'' 255,
           ((1, 3), (0, 2))), demo_image)"
proof -
  let ?C = "plain_collab\<lparr>clean_label := (\<lambda>l d. Inr (map (map (\<lambda>v. 0)) l))\<rparr>"
  have a: "bindE (nd_label ?C [[False, True], [True, True]]) (\<lambda>lab.
      bindE (clean_label ?C (fst lab) 50) (\<lambda>cluster. Inr (greater_zero cluster)))
      = Inr [[False, False], [False, False]]"
    by (simp add: plain_collab_def greater_zero_def)
  have b: "bindE (binarize demo_pmask) (\<lambda>m.
     bindE (find_bbox m) (\<lambda>bbox.
     bindE (smooth_step ?C (smooth default_params) bbox (getitem_box m bbox) demo_image) (\<lambda>image_buf.
     bindE (binary_step ?C (root_max_radius default_params) (getitem_box m bbox)
              (getitem_box image_buf bbox)) (\<lambda>rmask.
     Inr ((set_serializer rmask ''PNG'' ''uint8'' 255, bbox), image_buf))))) =
     Inr ((set_serializer [[False, True], [True, True]] ''PNG'' ''uint8'' 255,
           ((1, 3), (0, 2))), demo_image)"
    by code_simp
  show ?thesis
    using min_dimension_zero_skips_cleaning [of ?C "[[False, True], [True, True]]" 50
        default_params demo_image demo_pmask] a b
    by simp
qed

section \<open>The returned root mask\<close>

text \<open>
  Claim C9. When the external functions return arrays of the shape of their input, the
  root mask that \<open>segment_image\<close> returns has the shape of the binarized plate mask
  cropped to the returned bounding box: the same row lengths, and so the same pair of
  numbers of rows and columns.
\<close>

theorem rmask_shape_is_cropped_pmask_shape:
  assumes "shape_preserving C"
    and "segment_image C p image_buf pmask = Inr ((rm, bb), buf')"
    and "binarize pmask = Inr m"
  shows "shape (pixels rm) = shape (getitem_box m bb)
         \<and> shape2 (pixels rm) = shape2 (getitem_box m bb)"
proof -
  from segment_image_InrD [OF assms(2)] obtain m' r0 r1 where
    m': "binarize pmask = Inr m'"
    and b': "binary_step C (root_max_radius p) (getitem_box m' bb) (getitem_box buf' bb) = Inr r0"
    and c: "clean_step C (min_dimension p) r0 = Inr r1"
    and rm: "rm = set_serializer r1 ''PNG'' ''uint8'' 255"
    by blast
  have "m' = m" using m' assms(3) by simp
  with b' have
    b: "binary_step C (root_max_radius p) (getitem_box m bb) (getitem_box buf' bb) = Inr r0"
    by simp
  have "shape r1 = shape r0" using assms(1) c by (rule clean_step_shape)
  also have "\<dots> = shape (getitem_box m bb)" using b by (rule binary_step_Inr)
  finally have "shape r1 = shape (getitem_box m bb)" .
  then have "shape (pixels rm) = shape (getitem_box m bb)"
    by (simp add: rm set_serializer_def)
  then show ?thesis using shape2_cong by blast
qed

theorem rmask_shape_is_cropped_pmask_shape_witness:
  "shape [[False, True], [True, True]]
     = shape (getitem_box [[False, False, False], [False, True, False], [True, True, False]]
                ((1, 3), (0, 2))) \<and>
   shape2 [[False, True], [True, True]]
     = shape2 (getitem_box [[False, False, False], [False, True, False], [True, True, False]]
                ((1, 3), (0, 2)))"
  using rmask_shape_is_cropped_pmask_shape [OF plain_shape_preserving demo_run demo_binarize]
  by (simp add: set_serializer_def)

text \<open>
  Claim C4. Every pixel of the returned root mask that lies outside the binarized plate
  mask, cropped to the bounding box and not eroded, is false. When the cleaning step is
  skipped this needs nothing of the external functions; when it runs, it rests on the
  labelling giving label 0 to false pixels and on the cleaner giving a non-zero label
  only to pixels that had one.
\<close>

theorem rmask_false_outside_pmask:
  assumes "0 < min_dimension p \<Longrightarrow> label_background C \<and> clean_discards C"
    and "segment_image C p image_buf pmask = Inr ((rm, bb), buf')"
    and "binarize pmask = Inr m"
  shows "\<forall>i < length (pixels rm). \<forall>j < length (pixels rm ! i).
           \<not> getitem_box m bb ! i ! j \<longrightarrow> \<not> pixels rm ! i ! j"
proof (intro allI impI)
  fix i j
  assume ij: "i < length (pixels rm)" "j < length (pixels rm ! i)"
    and out: "\<not> getitem_box m bb ! i ! j"
  let ?pm = "getitem_box m bb"
  from segment_image_InrD [OF assms(2)] obtain m' r0 r1 where
    m': "binarize pmask = Inr m'"
    and b': "binary_step C (root_max_radius p) (getitem_box m' bb) (getitem_box buf' bb) = Inr r0"
    and c: "clean_step C (min_dimension p) r0 = Inr r1"
    and rm: "rm = set_serializer r1 ''PNG'' ''uint8'' 255"
    by blast
  have "m' = m" using m' assms(3) by simp
  with b' have b: "binary_step C (root_max_radius p) ?pm (getitem_box buf' bb) = Inr r0"
    by simp
  have s1: "shape r1 = shape r0" using assms(1) c by (rule clean_step_outside)
  have s0: "shape r0 = shape ?pm" using b by (rule binary_step_Inr)
  have i1: "i < length r1" "j < length (r1 ! i)" using ij by (simp_all add: rm set_serializer_def)
  have i0: "i < length r0" "j < length (r0 ! i)" using i1 shape_eqD [OF s1] by simp_all
  have ip: "i < length ?pm" "j < length (?pm ! i)" using i0 shape_eqD [OF s0] by simp_all
  have "\<not> r0 ! i ! j" using binary_step_Inr(2) [OF b ip out] .
  then have "\<not> r1 ! i ! j" using clean_step_outside(2) [OF assms(1) c i0] by simp
  then show "\<not> pixels rm ! i ! j" by (simp add: rm set_serializer_def)
qed

theorem rmask_false_outside_pmask_witness:
  "\<not> getitem_box [[False, False, False], [False, True, False], [True, True, False]]
        ((1, 3), (0, 2)) ! 0 ! 0 \<and>
   \<not> pixels (set_serializer [[False, True], [True, True]] ''PNG'' ''uint8'' 255) ! 0 ! 0"
proof -
  have c: "0 < min_dimension default_params \<Longrightarrow>
      label_background plain_collab \<and> clean_discards plain_collab"
    by (simp add: plain_label_background plain_clean_discards)
  have o: "\<not> getitem_box [[False, False, False], [False, True, False], [True, True, False]]
        ((1, 3), (0, 2)) ! 0 ! 0"
    by code_simp
  from rmask_false_outside_pmask [OF c demo_run demo_binarize] o
  show ?thesis by (simp add: set_serializer_def)
qed

section \<open>The smoothing step\<close>

text \<open>
  Claim C6. When smoothing is enabled, the Gaussian-blurred product of the cropped image
  and the cropped plate mask is divided by the Gaussian-blurred plate mask clamped from
  below at \<open>2\<^sup>-\<^sup>1\<^sup>0\<close>: every divisor is at least \<open>2\<^sup>-\<^sup>1\<^sup>0\<close> and so above 0. After the step the
  working image, read through the bounding box, holds the quotient at the pixels inside
  the cropped plate mask and its former value at the pixels outside of it.
\<close>

theorem smoothing_divisor_positive:
  assumes "sm \<noteq> 0" and "smooth_step C sm bb pm image_buf = Inr buf'"
  shows "\<exists>prod g1 g2.
     multiply_mask (getitem_box image_buf bb) pm = Inr prod \<and>
     nd_gaussian_filter C prod sm = Inr g1 \<and>
     nd_gaussian_filter C (astype_f pm) sm = Inr g2 \<and>
     smooth_divisor C sm pm = Inr (maximum g2 (1 / 2 ^ 10)) \<and>
     (\<forall>r \<in> set (maximum g2 (1 / 2 ^ 10)). \<forall>d \<in> set r. 1 / 2 ^ 10 \<le> d \<and> 0 < d) \<and>
     (\<forall>i < length pm. \<forall>j < length (pm ! i).
        getitem_box buf' bb ! i ! j =
          (if pm ! i ! j then g1 ! i ! j / max (g2 ! i ! j) (1 / 2 ^ 10)
           else getitem_box image_buf bb ! i ! j))"
proof -
  from smooth_step_pixels [OF assms] obtain prod g1 g2 where
    "multiply_mask (getitem_box image_buf bb) pm = Inr prod"
    "nd_gaussian_filter C prod sm = Inr g1"
    "nd_gaussian_filter C (astype_f pm) sm = Inr g2"
    "smooth_divisor C sm pm = Inr (maximum g2 (1 / 2 ^ 10))"
    "\<forall>i < length pm. \<forall>j < length (pm ! i).
        getitem_box buf' bb ! i ! j =
          (if pm ! i ! j then g1 ! i ! j / max (g2 ! i ! j) (1 / 2 ^ 10)
           else getitem_box image_buf bb ! i ! j)"
    by blast
  with maximum_positive [of g2] show ?thesis by blast
qed

theorem smoothing_divisor_positive_witness:
  "\<exists>prod g1 g2.
     multiply_mask (getitem_box [[1, 2, 3], [4, 50, 6], [70, 80, 9]] ((1, 3), (0, 2)))
       [[False, True], [True, True]] = Inr prod \<and>
     nd_gaussian_filter plain_collab prod 1 = Inr g1 \<and>
     nd_gaussian_filter plain_collab (astype_f [[False, True], [True, True]]) 1 = Inr g2 \<and>
     smooth_divisor plain_collab 1 [[False, True], [True, True]]
       = Inr (maximum g2 (1 / 2 ^ 10)) \<and>
     (\<forall>r \<in> set (maximum g2 (1 / 2 ^ 10)). \<forall>d \<in> set r. 1 / 2 ^ 10 \<le> d \<and> 0 < d) \<and>
     (\<forall>i < length [[False, True], [True, True]].
      \<forall>j < length ([[False, True], [True, True]] ! i).
        getitem_box [[1, 2, 3], [4, 50, 6], [70, 80, 9]] ((1, 3), (0, 2)) ! i ! j =
          (if [[False, True], [True, True]] ! i ! j
           then g1 ! i ! j / max (g2 ! i ! j) (1 / 2 ^ 10)
           else getitem_box [[1, 2, 3], [4, 50, 6], [70, 80, 9]] ((1, 3), (0, 2)) ! i ! j))"
proof -
  have "(1 :: real) \<noteq> 0" by simp
  from smoothing_divisor_positive [OF this demo_smooth_step] show ?thesis .
qed

section \<open>The caller's image array\<close>

text \<open>
  Claim C1, as the code has it. \<^verbatim>\<open>img = image[bbox]\<close> is a view of the caller's array,
  and with smoothing enabled \<^verbatim>\<open>img[pmask] = smooth_img[pmask]\<close> writes the smoothed
  values into it. After \<open>segment_image\<close> has returned, the caller's array has its shape,
  and every pixel outside the bounding box and every pixel where the cropped binarized
  plate mask is false has its former value; with \<open>smooth = 0\<close> the array is as it was.
\<close>

theorem image_changes_only_inside_plate_mask:
  assumes "segment_image C p image_buf pmask = Inr ((rm, bb), buf')"
    and "binarize pmask = Inr m"
  shows "shape buf' = shape image_buf \<and> (smooth p = 0 \<longrightarrow> buf' = image_buf) \<and>
     (\<forall>i < length image_buf. \<forall>j < length (image_buf ! i).
        \<not> (in_slice (fst bb) i \<and> in_slice (snd bb) j
           \<and> getitem_box m bb ! (i - fst (fst bb)) ! (j - fst (snd bb)))
        \<longrightarrow> buf' ! i ! j = image_buf ! i ! j)"
proof -
  from segment_image_InrD [OF assms(1)] obtain m' where
    m': "binarize pmask = Inr m'"
    and s': "smooth_step C (smooth p) bb (getitem_box m' bb) image_buf = Inr buf'"
    by blast
  have "m' = m" using m' assms(2) by simp
  with s' have s: "smooth_step C (smooth p) bb (getitem_box m bb) image_buf = Inr buf'"
    by simp
  show ?thesis
    using smooth_step_frame(1) [OF s] smooth_step_frame(2) [OF s]
      smooth_step_frame(3) [OF s]
    by blast
qed

theorem image_changes_only_inside_plate_mask_witness:
  "shape [[1, 2, 3], [4, 0, 6], [0, 0, 9 :: real]] = shape demo_image \<and>
   [[1, 2, 3], [4, 0, 6], [0, 0, 9 :: real]] ! 1 ! 0 = demo_image ! 1 ! 0 \<and>
   [[1, 2, 3], [4, 0, 6], [0, 0, 9 :: real]] ! 2 ! 2 = demo_image ! 2 ! 2"
proof -
  have a: "(1 :: nat) < length demo_image" "(0 :: nat) < length (demo_image ! 1)"
    "\<not> (in_slice (fst ((1, 3), (0, 2))) 1 \<and> in_slice (snd ((1, 3), (0, 2))) 0
       \<and> getitem_box [[False, False, False], [False, True, False], [True, True, False]]
            ((1, 3), (0, 2)) ! (1 - fst (fst ((1, 3), (0 :: nat, 2 :: nat))))
            ! (0 - fst (snd ((1 :: nat, 3 :: nat), (0, 2)))))"
    by code_simp+
  have b: "(2 :: nat) < length demo_image" "(2 :: nat) < length (demo_image ! 2)"
    "\<not> (in_slice (fst ((1, 3), (0, 2))) 2 \<and> in_slice (snd ((1, 3), (0, 2))) 2
       \<and> getitem_box [[False, False, False], [False, True, False], [True, True, False]]
            ((1, 3), (0, 2)) ! (2 - fst (fst ((1, 3), (0 :: nat, 2 :: nat))))
            ! (2 - fst (snd ((1 :: nat, 3 :: nat), (0, 2)))))"
    by code_simp+
  from image_changes_only_inside_plate_mask [OF demo_run_zero_blur demo_binarize] a b
  show ?thesis by blast
qed

text \<open>
  The claim as it is stated fails. With scipy's Gaussian filter and the default
  \<open>smooth = 1\<close>, the call on the image of one row \<open>[0, 1]\<close> with a plate mask that is
  1 everywhere returns, and the caller's array is no longer \<open>[[0, 1]]\<close>: its first
  pixel has become the blurred value, which is above 0.
\<close>

theorem image_mutated_counterexample:
  "\<not> isl (segment_image gaussian_collab default_params [[0, 1]] [[Val 1, Val (1 :: int)]]) \<and>
   snd (projr (segment_image gaussian_collab default_params [[0, 1]] [[Val 1, Val (1 :: int)]]))
     \<noteq> [[0, 1]]"
proof -
  let ?bb = "((0, 1), (0, 2)) :: bbox"
  have "shape [[0, 1 :: real]] = shape [[Val 1, Val (1 :: int)]]"
    "0 < asize [[Val 1, Val (1 :: int)]]" "nan_free [[Val 1, Val (1 :: int)]]"
    by (simp_all add: shape_def asize_def nan_free_def)
  from segment_image_returns [OF gaussian_always_return gaussian_shape_preserving this]
  obtain rm bb buf' where
    run: "segment_image gaussian_collab default_params [[0, 1]] [[Val 1, Val (1 :: int)]]
            = Inr ((rm, bb), buf')"
    by blast
  from segment_image_InrD [OF run] obtain m where
    m: "binarize [[Val 1, Val (1 :: int)]] = Inr m" and b: "find_bbox m = Inr bb"
    and s: "smooth_step gaussian_collab (smooth default_params) bb (getitem_box m bb) [[0, 1]]
              = Inr buf'"
    by blast
  have "binarize [[Val 1, Val (1 :: int)]] = Inr [[True, True]]" by code_simp
  with m have m_eq: "m = [[True, True]]" by simp
  have "find_bbox [[True, True]] = Inr ?bb" by code_simp
  with b have bb: "bb = ?bb" by (simp add: m_eq)
  have crop: "getitem_box [[True, True]] ?bb = [[True, True]]" by code_simp
  have sm: "smooth default_params = 1" by (simp add: default_params_def)
  have s': "smooth_step gaussian_collab 1 ?bb [[True, True]] [[0, 1]] = Inr buf'"
    using s unfolding m_eq bb crop sm .
  have "(1 :: real) \<noteq> 0" by simp
  from smooth_step_pixels [OF this s'] obtain prod g1 g2 where
    p: "multiply_mask (getitem_box [[0, 1]] ?bb) [[True, True]] = Inr prod"
    and g1: "nd_gaussian_filter gaussian_collab prod 1 = Inr g1"
    and px: "\<forall>i < length [[True, True]]. \<forall>j < length ([[True, True]] ! i).
        getitem_box buf' ?bb ! i ! j =
          (if [[True, True]] ! i ! j then g1 ! i ! j / max (g2 ! i ! j) (1 / 2 ^ 10)
           else getitem_box [[0, 1]] ?bb ! i ! j)"
    by blast
  have "multiply_mask (getitem_box [[0, 1]] ?bb) [[True, True]] = Inr [[0, 1]]" by code_simp
  with p have "prod = [[0, 1]]" by simp
  with g1 have "gaussian_filter [[0, 1]] 1 = Inr g1"
    by (simp add: gaussian_collab_def)
  then have g1pos: "0 < g1 ! 0 ! 0" by (rule gaussian_blur_corner_positive)
  have "getitem_box buf' ?bb ! 0 ! 0 = g1 ! 0 ! 0 / max (g2 ! 0 ! 0) (1 / 2 ^ 10)"
    using px by simp
  moreover have "0 < max (g2 ! 0 ! 0) (1 / 2 ^ 10)" by simp
  ultimately have pos: "0 < getitem_box buf' ?bb ! 0 ! 0"
    using g1pos by simp
  have "getitem_box [[0, 1 :: real]] ?bb ! 0 ! 0 = 0" by code_simp
  with pos have "buf' \<noteq> [[0, 1]]" by auto
  then show ?thesis by (simp add: run)
qed

section \<open>The serializers\<close>

text \<open>
  Claim C3, as the code has it. \<open>detect_leaves\<close> sets the scale \<^verbatim>\<open>255/plant_number\<close>, a
  division of two Python 2 integers, so the scale is the integer \<open>255 div plant_number\<close>.
  With the serializer's scaling modelled as a multiplication stored in 8 bits, the stored
  intensity of seed label \<open>k\<close>, for \<open>0 \<le> k \<le> plant_number\<close>, is
  \<open>k * (255 div plant_number)\<close>; it is \<open>k * 255 / plant_number\<close> when \<open>plant_number\<close>
  divides 255. The root mask of \<open>segment_image\<close> has the scale 255: true is stored as
  255 and false as 0. Both serializers name the format PNG and the dtype uint8.
\<close>

theorem serialized_intensities:
  assumes "0 < plant_number" "0 \<le> k" "k \<le> plant_number"
    and "detect_leaves C rmask image_buf bb plant_number r h srt = Inr seed_map"
    and "segment_image C p image_buf pmask = Inr ((rm, bb), buf')"
  shows "serializer seed_map
           = \<lparr>pil_format = ''PNG'', ser_dtype = ''uint8'', ser_scale = 255 div plant_number\<rparr> \<and>
         uint (stored_intensity (serializer seed_map) k) = k * (255 div plant_number) \<and>
         (plant_number dvd 255 \<longrightarrow>
            real_of_int (uint (stored_intensity (serializer seed_map) k))
              = real_of_int k * 255 / real_of_int plant_number) \<and>
         serializer rm = \<lparr>pil_format = ''PNG'', ser_dtype = ''uint8'', ser_scale = 255\<rparr> \<and>
         stored_bool (serializer rm) True = 255 \<and>
         stored_bool (serializer rm) False = 0"
proof -
  have ser: "serializer seed_map
           = \<lparr>pil_format = ''PNG'', ser_dtype = ''uint8'', ser_scale = 255 div plant_number\<rparr>"
    using assms(4) by (rule detect_leaves_InrD)
  have st: "uint (stored_intensity (serializer seed_map) k) = k * (255 div plant_number)"
    using uint_stored_intensity [of k "serializer seed_map"]
      scaled_label_bounds [OF assms(1-3)]
    by (simp add: ser)
  have ex: "real_of_int (k * (255 div plant_number))
              = real_of_int k * 255 / real_of_int plant_number"
    if "plant_number dvd 255"
  proof -
    from that obtain q where q: "255 = plant_number * q" by (auto simp: dvd_def)
    have "255 div plant_number = (plant_number * q) div plant_number" by (simp only: q)
    also have "\<dots> = q" using assms(1) by simp
    finally have d: "255 div plant_number = q" .
    have "real_of_int plant_number * real_of_int q = 255"
      using q by (metis of_int_mult of_int_numeral)
    then have "real_of_int q = 255 / real_of_int plant_number"
      using assms(1) by (simp add: field_simps)
    then show ?thesis by (simp add: d)
  qed
  from segment_image_InrD [OF assms(5)] obtain r1 where
    "rm = set_serializer r1 ''PNG'' ''uint8'' 255" by blast
  then have rs: "serializer rm = \<lparr>pil_format = ''PNG'', ser_dtype = ''uint8'', ser_scale = 255\<rparr>"
    by (simp add: set_serializer_def)
  have "stored_bool (serializer rm) True = 255" "stored_bool (serializer rm) False = 0"
    by (simp_all add: rs stored_bool_def stored_intensity_def)
  with ser st ex rs show ?thesis by simp
qed

theorem serialized_intensities_witness:
  "serializer (set_serializer ([[0, 0], [0, 0]] :: int ndarray) ''PNG'' ''uint8'' 127)
     = \<lparr>pil_format = ''PNG'', ser_dtype = ''uint8'', ser_scale = 127\<rparr> \<and>
   uint (stored_intensity
      (serializer (set_serializer ([[0, 0], [0, 0]] :: int ndarray) ''PNG'' ''uint8'' 127)) 2)
     = 254 \<and>
   stored_bool (serializer (set_serializer [[False, True], [True, True]] ''PNG'' ''uint8'' 255))
     True = 255 \<and>
   stored_bool (serializer (set_serializer [[False, True], [True, True]] ''PNG'' ''uint8'' 255))
     False = 0"
proof -
  have "(0 :: int) < 2" "(0 :: int) \<le> 2" "(2 :: int) \<le> 2" by simp_all
  from serialized_intensities [OF this demo_detect_leaves demo_run]
  show ?thesis by (simp add: set_serializer_def)
qed

text \<open>
  The claim as it is stated fails for two plants: the scale is 127, label 2 is stored
  as 254 and label 1 as 127, where the claimed rounding gives 255 and 128.
\<close>

theorem serialized_intensity_counterexample:
  "\<not> isl (detect_leaves plain_collab [[False, True], [True, True]] demo_image
            ((1, 3), (0, 2)) 2 3 (0, 1 / 5) True) \<and>
   uint (stored_intensity (serializer (projr (detect_leaves plain_collab
            [[False, True], [True, True]] demo_image ((1, 3), (0, 2)) 2 3 (0, 1 / 5) True))) 2)
     = 254 \<and>
   round (2 * 255 / 2 :: real) = 255 \<and>
   uint (stored_intensity (serializer (projr (detect_leaves plain_collab
            [[False, True], [True, True]] demo_image ((1, 3), (0, 2)) 2 3 (0, 1 / 5) True))) 1)
     = 127 \<and>
   round (1 * 255 / 2 :: real) = 128"
proof -
  have "round (255 / 2 :: real) = 128" unfolding round_def by linarith
  then show ?thesis
    unfolding demo_detect_leaves
    by (simp add: set_serializer_def stored_intensity_def)
qed

end
